theory Spec2Isabelle
  imports Main "HOL-Library.Sublist" "HOL-Library.AList" "HOL-Library.While_Combinator"
begin

section \<open>Rule tables (package policy)\<close>

text \<open>
  A rule is a Go \<^verbatim>\<open>[]string\<close>. The table \<^verbatim>\<open>Policy.ruleMap\<close> is a Go map from the
  fingerprint of a rule to the rule. The fingerprint function \<^verbatim>\<open>util.Hash\<close> is not part
  of the sources at hand, so every operation takes it as the parameter \<open>Hash\<close>. The
  embedded emitter is represented by the sequence of events it has been asked to emit,
  oldest first.
\<close>

type_synonym Rule = "string list"

datatype Event = EVT_RULE_ADDED Rule | EVT_RULE_REMOVED Rule | EVT_CLEARED

type_synonym error = string

record Policy =
  ruleMap :: "string \<rightharpoonup> Rule"
  emitted :: "Event list"

definition EmitEvent :: "Policy \<Rightarrow> Event \<Rightarrow> Policy" where
  "EmitEvent p ev = p\<lparr>emitted := emitted p @ [ev]\<rparr>"

text \<open>\<^verbatim>\<open>NewPolicy\<close>: an empty table whose emitter has emitted nothing.\<close>

definition NewPolicy :: Policy where
  "NewPolicy = \<lparr>ruleMap = Map.empty, emitted = []\<rparr>"

text \<open>
  \<^verbatim>\<open>func (p *Policy) AddRule(rule []string) (bool, error)\<close>: the result pairs the Go
  return values with the updated receiver.
\<close>

definition AddRule :: "(Rule \<Rightarrow> string) \<Rightarrow> Policy \<Rightarrow> Rule \<Rightarrow> (bool \<times> error option) \<times> Policy" where
  "AddRule Hash p rule =
     (let key = Hash rule in
      case ruleMap p key of
        Some _ \<Rightarrow> ((False, None), p)
      | None \<Rightarrow> ((True, None), EmitEvent (p\<lparr>ruleMap := (ruleMap p)(key \<mapsto> rule)\<rparr>) (EVT_RULE_ADDED rule)))"

text \<open>\<^verbatim>\<open>func (p *Policy) RemoveRule(rule []string) (bool, error)\<close>.\<close>

definition RemoveRule :: "(Rule \<Rightarrow> string) \<Rightarrow> Policy \<Rightarrow> Rule \<Rightarrow> (bool \<times> error option) \<times> Policy" where
  "RemoveRule Hash p rule =
     (let key = Hash rule in
      case ruleMap p key of
        None \<Rightarrow> ((False, None), p)
      | Some _ \<Rightarrow> ((True, None), EmitEvent (p\<lparr>ruleMap := (ruleMap p)(key := None)\<rparr>) (EVT_RULE_REMOVED rule)))"

text \<open>\<^verbatim>\<open>func (p *Policy) Clear() error\<close>.\<close>

definition Clear_Policy :: "Policy \<Rightarrow> error option \<times> Policy" where
  "Clear_Policy p = (None, EmitEvent (p\<lparr>ruleMap := Map.empty\<rparr>) EVT_CLEARED)"

section \<open>The enforcer (package fastac)\<close>

text \<open>
  The three decisions of package \<^verbatim>\<open>eft\<close>.
\<close>

datatype Effect = Allow | Indeterminate | Deny

text \<open>
  \<^verbatim>\<open>effector.Effector\<close> is an interface with the single method
  \<^verbatim>\<open>MergeEffects(effects, matches, complete) (Effect, []int, error)\<close>. Its implementations
  are not part of the sources at hand and a Go value behind an interface may carry state, so
  the method is a parameter that threads a state of type \<open>'e\<close>.
\<close>

type_synonym 'e Effector =
  "'e \<Rightarrow> Effect list \<Rightarrow> Rule list \<Rightarrow> bool \<Rightarrow> (Effect \<times> nat list \<times> error option) \<times> 'e"

text \<open>
  Modelled from the spec: \<^verbatim>\<open>Model.RangeMatches\<close> and the matcher driver behind it, which
  are not part of the sources at hand. Following the section on the matcher driver: selecting
  the policy definition may fail (matcher misconfigured); otherwise the rules of the table are
  visited in the order the table provides, the expression is evaluated on each rule, the
  first evaluation error is returned, the visitor is invoked on every rule on which the
  expression is true, and iteration stops when the visitor returns false. The visitor is a
  Go closure; here it transforms the variables \<open>'s\<close> it captures.
\<close>

fun RangeMatches_rules :: "(Rule \<Rightarrow> error + bool) \<Rightarrow> Rule list \<Rightarrow>
    ('s \<Rightarrow> Rule \<Rightarrow> bool \<times> 's) \<Rightarrow> 's \<Rightarrow> error option \<times> 's" where
  "RangeMatches_rules ev [] fn st = (None, st)"
| "RangeMatches_rules ev (rule # rules) fn st =
     (case ev rule of
        Inl e \<Rightarrow> (Some e, st)
      | Inr False \<Rightarrow> RangeMatches_rules ev rules fn st
      | Inr True \<Rightarrow>
          (case fn st rule of
             (True, st') \<Rightarrow> RangeMatches_rules ev rules fn st'
           | (False, st') \<Rightarrow> (None, st')))"

fun RangeMatches :: "error option \<Rightarrow> (Rule \<Rightarrow> error + bool) \<Rightarrow> Rule list \<Rightarrow>
    ('s \<Rightarrow> Rule \<Rightarrow> bool \<times> 's) \<Rightarrow> 's \<Rightarrow> error option \<times> 's" where
  "RangeMatches (Some e) ev rules fn st = (Some e, st)"
| "RangeMatches None ev rules fn st = RangeMatches_rules ev rules fn st"

text \<open>
  The per-call \<^verbatim>\<open>Context\<close>: the selected matcher (whether selecting its policy definition
  fails, and its expression with the request values bound) and the selected effector.
\<close>

record 'e Context =
  misconfigured :: "error option"
  expr :: "Rule \<Rightarrow> error + bool"
  MergeEffects :: "'e Effector"

text \<open>
  The variables of \<^verbatim>\<open>Enforcer.enforce\<close> that its visitor closure captures and assigns,
  together with the state of the effector.
\<close>

record 'e EnforceVars =
  res :: Effect
  effects :: "Effect list"
  matches :: "Rule list"
  eftErr :: "error option"
  effector :: 'e

text \<open>The closure passed to \<^verbatim>\<open>RangeMatchesWithContext\<close> (enforcer.go, lines 323 to 335).\<close>

definition enforce_fn :: "(Rule \<Rightarrow> Effect) \<Rightarrow> 'e Effector \<Rightarrow> 'e EnforceVars \<Rightarrow> Rule \<Rightarrow> bool \<times> 'e EnforceVars" where
  "enforce_fn GetEft merge v rule =
     (let effect = GetEft rule;
          effects' = effects v @ [effect];
          matches' = matches v @ [rule]
      in case merge (effector v) effects' matches' False of
           ((res', _, eftErr'), e') \<Rightarrow>
             (\<not> (eftErr' \<noteq> None \<or> res' \<noteq> Indeterminate),
              \<lparr>res = res', effects = effects', matches = matches', eftErr = eftErr', effector = e'\<rparr>))"

text \<open>
  \<^verbatim>\<open>func (e *Enforcer) enforce(ctx *Context, rvals []interface{}) (bool, error)\<close>.
  \<open>pDef\<close> is what \<^verbatim>\<open>GetDef(P_SEC, ctx.matcher.GetPolicyKey())\<close> yields, a policy definition
  being represented by its method \<^verbatim>\<open>GetEft\<close>; the type assertion on a missing definition
  panics. \<open>rules\<close> is the rule table in the order it is ranged over. On an effector error
  the source returns \<^verbatim>\<open>false, err\<close>, where \<^verbatim>\<open>err\<close> is the (nil) error of the iteration.
\<close>

datatype Outcome = Panic | Return bool "error option"

definition enforce :: "(Rule \<Rightarrow> Effect) option \<Rightarrow> Rule list \<Rightarrow> 'e Context \<Rightarrow> 'e \<Rightarrow> Outcome \<times> 'e" where
  "enforce pDef rules ctx e0 =
     (case pDef of
        None \<Rightarrow> (Panic, e0)
      | Some GetEft \<Rightarrow>
          (case RangeMatches (misconfigured ctx) (expr ctx) rules (enforce_fn GetEft (MergeEffects ctx))
                  \<lparr>res = Indeterminate, effects = [], matches = [], eftErr = None, effector = e0\<rparr> of
             (err, v) \<Rightarrow>
               if err \<noteq> None then (Return False err, effector v)
               else if eftErr v \<noteq> None then (Return False err, effector v)
               else if res v = Indeterminate then
                 (case MergeEffects ctx (effector v) (effects v) (matches v) True of
                    ((res', _, _), e') \<Rightarrow> (Return (res' = Allow) None, e'))
               else (Return (res v = Allow) None, effector v)))"

text \<open>\<^verbatim>\<open>EnforceWithContext\<close> hands the result of \<^verbatim>\<open>enforce\<close> on unchanged.\<close>

definition EnforceWithContext :: "(Rule \<Rightarrow> Effect) option \<Rightarrow> Rule list \<Rightarrow> 'e Context \<Rightarrow> 'e \<Rightarrow> Outcome \<times> 'e" where
  "EnforceWithContext pDef rules ctx e0 = enforce pDef rules ctx e0"

text \<open>
  To speak about the calls an enforcement makes, an effector \<open>E\<close> is run as the effector
  whose state pairs the state of \<open>E\<close> with the list of the calls received so far, oldest
  first. Its answers are those of \<open>E\<close>.
\<close>

type_synonym call = "Effect list \<times> Rule list \<times> bool"

definition logged :: "'e Effector \<Rightarrow> ('e \<times> call list) Effector" where
  "logged E st effs ms complete =
     (case E (fst st) effs ms complete of
        (r, e') \<Rightarrow> (r, (e', snd st @ [(effs, ms, complete)])))"

text \<open>The rules on which the matcher expression is true, in table order.\<close>

definition matching :: "(Rule \<Rightarrow> error + bool) \<Rightarrow> Rule list \<Rightarrow> Rule list" where
  "matching ev rules = filter (\<lambda>r. ev r = Inr True) rules"

text \<open>The non-empty prefixes of a list, shortest first.\<close>

fun nprefixes :: "'a list \<Rightarrow> 'a list list" where
  "nprefixes [] = []"
| "nprefixes (x # xs) = [x] # map ((#) x) (nprefixes xs)"

text \<open>
  \<open>fed E G R ms e\<close>: the state of the effector \<open>E\<close>, started in \<open>e\<close> when the matches
  \<open>R\<close> have been seen, after one call with \<open>complete = false\<close> for every further match of
  \<open>ms\<close>, each on the matches seen so far and their effects. \<open>answer_from E G R e p c\<close>: what
  \<open>E\<close> then answers to the call on the matches \<open>R @ p\<close> with \<open>complete = c\<close>; the calls
  before it were those on the shorter prefixes.
\<close>

fun fed :: "'e Effector \<Rightarrow> (Rule \<Rightarrow> Effect) \<Rightarrow> Rule list \<Rightarrow> Rule list \<Rightarrow> 'e \<Rightarrow> 'e" where
  "fed E G R [] e = e"
| "fed E G R (r # rs) e = fed E G (R @ [r]) rs (snd (E e (map G (R @ [r])) (R @ [r]) False))"

definition answer_from :: "'e Effector \<Rightarrow> (Rule \<Rightarrow> Effect) \<Rightarrow> Rule list \<Rightarrow> 'e \<Rightarrow> Rule list \<Rightarrow> bool \<Rightarrow>
    Effect \<times> nat list \<times> error option" where
  "answer_from E G R e p complete =
     fst (E (fed E G R (if complete then p else butlast p) e) (map G (R @ p)) (R @ p) complete)"

definition answer :: "'e Effector \<Rightarrow> (Rule \<Rightarrow> Effect) \<Rightarrow> 'e \<Rightarrow> Rule list \<Rightarrow> bool \<Rightarrow>
    Effect \<times> nat list \<times> error option" where
  "answer E G e0 p complete = answer_from E G [] e0 p complete"

text \<open>
  \<open>quiet E G e0 p\<close>: called with \<open>complete = false\<close> on the matches \<open>p\<close>, after the calls
  on the shorter prefixes, \<open>E\<close> answers \<open>Indeterminate\<close> and no error. \<open>calls G ms\<close>: one
  call with \<open>complete = false\<close> for each non-empty prefix of \<open>ms\<close>.
\<close>

definition quiet_from :: "'e Effector \<Rightarrow> (Rule \<Rightarrow> Effect) \<Rightarrow> Rule list \<Rightarrow> 'e \<Rightarrow> Rule list \<Rightarrow> bool" where
  "quiet_from E G R e p =
     (fst (answer_from E G R e p False) = Indeterminate \<and> snd (snd (answer_from E G R e p False)) = None)"

definition quiet :: "'e Effector \<Rightarrow> (Rule \<Rightarrow> Effect) \<Rightarrow> 'e \<Rightarrow> Rule list \<Rightarrow> bool" where
  "quiet E G e0 p = quiet_from E G [] e0 p"

definition calls :: "(Rule \<Rightarrow> Effect) \<Rightarrow> Rule list \<Rightarrow> call list" where
  "calls G ms = map (\<lambda>p. (map G p, p, False)) (nprefixes ms)"

text \<open>
  The visitor applied to a sequence of matching rules until it asks to stop; the Boolean
  tells whether it never did.
\<close>

fun visit :: "('s \<Rightarrow> Rule \<Rightarrow> bool \<times> 's) \<Rightarrow> Rule list \<Rightarrow> 's \<Rightarrow> bool \<times> 's" where
  "visit fn [] st = (True, st)"
| "visit fn (r # rs) st = (case fn st r of (True, st') \<Rightarrow> visit fn rs st' | (False, st') \<Rightarrow> (False, st'))"

text \<open>
  Concrete parts for running the enforcer: an effector without state given by its answers,
  the answers of the combination rule \<^verbatim>\<open>some(where (p.eft == allow))\<close> as the spec's table
  describes it, a \<^verbatim>\<open>GetEft\<close> that reads the last column of a rule and defaults to \<open>Allow\<close>,
  and answers that report an error next to the decision \<open>d\<close> while the stream is
  incomplete.
\<close>

definition stateless :: "(Effect list \<Rightarrow> Rule list \<Rightarrow> bool \<Rightarrow> Effect \<times> nat list \<times> error option) \<Rightarrow> unit Effector" where
  "stateless M e effs ms complete = (M effs ms complete, e)"

definition some_allow :: "Effect list \<Rightarrow> Rule list \<Rightarrow> bool \<Rightarrow> Effect \<times> nat list \<times> error option" where
  "some_allow effs ms complete =
     (if Allow \<in> set effs then (Allow, [], None)
      else if complete then (Deny, [], None) else (Indeterminate, [], None))"

definition eft_column :: "Rule \<Rightarrow> Effect" where
  "eft_column rule = (if last rule = ''deny'' then Deny else Allow)"

definition failing_effector :: "Effect \<Rightarrow> Effect list \<Rightarrow> Rule list \<Rightarrow> bool \<Rightarrow> Effect \<times> nat list \<times> error option" where
  "failing_effector d effs ms complete =
     (if complete then (Allow, [], None) else (d, [], Some ''unsupported effect''))"

section \<open>Go strings and slices\<close>

text \<open>
  A Go string is a sequence of bytes, here a \<^typ>\<open>string\<close>. An operation of the source
  that may panic at run time (a slice expression or an index out of range) yields
  \<open>Panicked\<close> in the model.
\<close>

datatype 'a go_result = Panicked | Returned 'a

text \<open>\<^verbatim>\<open>strings.Index(s, substr)\<close>: the first position of \<open>substr\<close> in \<open>s\<close>; \<open>None\<close> for \<open>-1\<close>.\<close>

fun Index :: "string \<Rightarrow> string \<Rightarrow> nat option" where
  "Index [] substr = (if substr = [] then Some 0 else None)"
| "Index (c # cs) substr =
     (if prefix substr (c # cs) then Some 0 else map_option Suc (Index cs substr))"

text \<open>The slice expressions \<^verbatim>\<open>s[a:b]\<close>, \<^verbatim>\<open>s[a:]\<close> and \<^verbatim>\<open>s[:b]\<close>; \<open>None\<close> is the panic.\<close>

definition slice :: "string \<Rightarrow> nat \<Rightarrow> nat \<Rightarrow> string option" where
  "slice s a b = (if a \<le> b \<and> b \<le> length s then Some (take (b - a) (drop a s)) else None)"

definition slice_from :: "string \<Rightarrow> nat \<Rightarrow> string option" where
  "slice_from s a = slice s a (length s)"

definition slice_to :: "string \<Rightarrow> nat \<Rightarrow> string option" where
  "slice_to s b = slice s 0 b"

lemma Index_bound: "Index s substr = Some k \<Longrightarrow> k + length substr \<le> length s"
proof (induction s arbitrary: k)
  case Nil
  then show ?case by (simp split: if_splits)
next
  case (Cons c cs)
  then show ?case by (auto split: if_splits dest: prefix_length_le)
qed

text \<open>
  \<^verbatim>\<open>strings.Split(s, sep)\<close>: cut at every occurrence of \<open>sep\<close>, from the left and without
  overlap. With an empty separator Go explodes the string into its UTF-8 sequences; the
  model explodes it into bytes, which is the same for ASCII input.
\<close>

function Split :: "string \<Rightarrow> string \<Rightarrow> string list" where
  "Split s sep =
     (if sep = [] then map (\<lambda>c. [c]) s
      else case Index s sep of
             None \<Rightarrow> [s]
           | Some m \<Rightarrow> take m s # Split (drop (m + length sep) s) sep)"
  by pat_completeness auto
termination
proof (relation "measure (\<lambda>(s, sep). length s)")
  fix s sep :: string and m
  assume "sep \<noteq> []" and "Index s sep = Some m"
  then have "m + length sep \<le> length s" and "0 < length sep"
    by (auto dest: Index_bound)
  then have "length s - (m + length sep) < length s"
    by arith
  then show "((drop (m + length sep) s, sep), (s, sep)) \<in> measure (\<lambda>(s, sep). length s)"
    by simp
qed simp

declare Split.simps [simp del]

text \<open>\<^verbatim>\<open>strings.Join(elems, sep)\<close>.\<close>

fun Join :: "string list \<Rightarrow> string \<Rightarrow> string" where
  "Join [] sep = []"
| "Join [x] sep = x"
| "Join (x # y # ys) sep = x @ sep @ Join (y # ys) sep"

text \<open>\<^verbatim>\<open>strconv.Itoa\<close> on a number that is not negative.\<close>

definition digit :: "nat \<Rightarrow> char" where
  "digit d = char_of (48 + d)"

fun Itoa :: "nat \<Rightarrow> string" where
  "Itoa n = (if n < 10 then [digit n] else Itoa (n div 10) @ [digit (n mod 10)])"

declare Itoa.simps [simp del]

section \<open>The path matcher (package pathmatch)\<close>

text \<open>
  \<^verbatim>\<open>type Match map[string]string\<close> is an association list with at most one entry for a
  key; a nil map is \<open>None\<close> of \<open>Match option\<close>.
\<close>

type_synonym Match = "(string \<times> string) list"

record savePoint =
  i :: nat
  sIndex :: nat
  searchStart :: nat
  valid :: bool

record matchDraft =
  capture :: bool
  match_of :: Match

text \<open>
  The four implementations of \<^verbatim>\<open>ISegment\<close>. The key locations that \<^verbatim>\<open>Compile\<close> collects in
  the flat slice \<^verbatim>\<open>keyLocs\<close> (start and end of every key, prefix and suffix included) are
  kept as a list of pairs.
\<close>

datatype Segment =
    staticSegment string
  | paramSegment string bool
  | wildcardSegment string
  | mixedSegment "string list" "string list"

record Path =
  path :: string
  Seperator :: string
  Prefix :: string
  Suffix :: string
  Wildcard :: string
  Segments :: "Segment list"
  match :: Match
  save :: savePoint
  equalCheck :: bool

subsection \<open>Options\<close>

datatype compile_error =
    PrefixEmpty
  | SuffixNotFound string string
  | PrefixNotFollowedByName string string
  | NoCharacterBetweenKeys

datatype Option = SetSeperator string | SetWildcard string | SetPrefix string | SetSuffix string
  | EnableEqualityCheck bool

fun apply_Option :: "Option \<Rightarrow> Path \<Rightarrow> compile_error + Path" where
  "apply_Option (SetSeperator sep) p = Inr (p\<lparr>Seperator := sep\<rparr>)"
| "apply_Option (SetWildcard wildcard) p = Inr (p\<lparr>Wildcard := wildcard\<rparr>)"
| "apply_Option (SetPrefix pre) p =
     (if pre = [] then Inl PrefixEmpty else Inr (p\<lparr>Prefix := pre\<rparr>))"
| "apply_Option (SetSuffix suf) p = Inr (p\<lparr>Suffix := suf\<rparr>)"
| "apply_Option (EnableEqualityCheck b) p = Inr (p\<lparr>equalCheck := b\<rparr>)"

fun apply_Options :: "Option list \<Rightarrow> Path \<Rightarrow> compile_error + Path" where
  "apply_Options [] p = Inr p"
| "apply_Options (option # options) p =
     (case apply_Option option p of Inl err \<Rightarrow> Inl err | Inr p' \<Rightarrow> apply_Options options p')"

subsection \<open>Segments\<close>

fun Multiple :: "Segment \<Rightarrow> bool" where
  "Multiple (wildcardSegment key) = True"
| "Multiple _ = False"

text \<open>\<^verbatim>\<open>newMatchDraft\<close> and \<^verbatim>\<open>matchDraft.set\<close>.\<close>

definition newMatchDraft :: "bool \<Rightarrow> Match \<Rightarrow> matchDraft" where
  "newMatchDraft c m = (if \<not> c then \<lparr>capture = c, match_of = m\<rparr> else \<lparr>capture = c, match_of = []\<rparr>)"

definition set_draft :: "matchDraft \<Rightarrow> string \<Rightarrow> string \<Rightarrow> matchDraft" where
  "set_draft m key v = (if \<not> capture m then m else m\<lparr>match_of := AList.update key v (match_of m)\<rparr>)"

text \<open>
  The loop of \<^verbatim>\<open>mixedSegment.Match\<close> over the keys, from index \<open>n\<close> on. The result tells
  whether the loop ran to its end (false where the source returns nil), the last
  \<^verbatim>\<open>keyEnd\<close>, and the draft as the calls of \<^verbatim>\<open>set\<close> have left it: the draft is updated in
  place, so the updates made before a nil return stay visible to the caller.
\<close>

fun mixed_keys :: "string list \<Rightarrow> string list \<Rightarrow> nat \<Rightarrow> string \<Rightarrow> nat \<Rightarrow> matchDraft \<Rightarrow>
    (bool \<times> nat \<times> matchDraft) go_result" where
  "mixed_keys [] static n s keyEnd m = Returned (True, keyEnd, m)"
| "mixed_keys (key # keys) static n s keyEnd m =
     (if length static \<le> n + 1 then Panicked
      else case slice_from s keyEnd of
        None \<Rightarrow> Panicked
      | Some tail \<Rightarrow>
          (case Index tail (static ! n) of
             None \<Rightarrow> Returned (False, keyEnd, m)
           | Some start \<Rightarrow>
               if start \<noteq> 0 then Returned (False, keyEnd, m)
               else
                 (let keyStart = start + keyEnd + length (static ! n) in
                  case slice_from s keyStart of
                    None \<Rightarrow> Panicked
                  | Some rest \<Rightarrow>
                      (case (if static ! (n + 1) = [] then Some (length rest)
                             else Index rest (static ! (n + 1))) of
                         None \<Rightarrow> Returned (False, keyEnd, m)
                       | Some keyLen \<Rightarrow>
                           (case slice s keyStart (keyStart + keyLen) of
                              None \<Rightarrow> Panicked
                            | Some v \<Rightarrow>
                                mixed_keys keys static (n + 1) s (keyStart + keyLen)
                                  (set_draft m key v))))))"

text \<open>
  \<^verbatim>\<open>ISegment.Match(m *matchDraft, s string) *matchDraft\<close>. The Boolean is true where the
  source returns the draft and false where it returns nil; the second component is the
  draft object after the call.
\<close>

fun seg_Match :: "Segment \<Rightarrow> matchDraft \<Rightarrow> string \<Rightarrow> (bool \<times> matchDraft) go_result" where
  "seg_Match (staticSegment v) m s = Returned (s = v, m)"
| "seg_Match (paramSegment key eq) m s =
     (case map_of (match_of m) key of
        Some v \<Rightarrow> if eq \<and> s \<noteq> v then Returned (False, m) else Returned (True, set_draft m key s)
      | None \<Rightarrow> Returned (True, set_draft m key s))"
| "seg_Match (wildcardSegment key) m s = Returned (True, set_draft m key s)"
| "seg_Match (mixedSegment keys static) m s =
     (case mixed_keys keys static 0 s 0 m of
        Panicked \<Rightarrow> Panicked
      | Returned (False, keyEnd, m') \<Rightarrow> Returned (False, m')
      | Returned (True, keyEnd, m') \<Rightarrow>
          if static = [] then Panicked
          else if length s \<noteq> keyEnd + length (last static) then Returned (False, m')
          else Returned (True, m'))"

subsection \<open>Compile\<close>

text \<open>
  \<^verbatim>\<open>except.FindStringIndex\<close> for the pattern \<^verbatim>\<open>[^.?=&#:]+\<close>: the location of the leftmost
  longest run of characters outside the class; \<open>None\<close> where the source gets nil.
\<close>

definition special :: "char \<Rightarrow> bool" where
  "special c = (c \<in> set ''.?=&#:'')"

definition except_FindStringIndex :: "string \<Rightarrow> (nat \<times> nat) option" where
  "except_FindStringIndex s =
     (let a = length (takeWhile special s) in
      if drop a s = [] then None
      else Some (a, a + length (takeWhile (\<lambda>c. \<not> special c) (drop a s))))"

text \<open>
  The loop \<^verbatim>\<open>for iPrefix != -1\<close> of \<^verbatim>\<open>Compile\<close> (lines 79 to 102) for one segment, entered
  with the position of the first prefix. It yields the last key, the keys and their
  locations. \<^verbatim>\<open>Compile\<close> never holds an empty prefix (the default is a colon and
  \<^verbatim>\<open>SetPrefix\<close> rejects the empty string), so the first branch is not reached from it.
\<close>

function scan_keys :: "string \<Rightarrow> string \<Rightarrow> string \<Rightarrow> nat \<Rightarrow> string list \<Rightarrow> (nat \<times> nat) list \<Rightarrow>
    (compile_error + string \<times> string list \<times> (nat \<times> nat) list) go_result" where
  "scan_keys pre suf strSeg iPrefix keys keyLocs =
     (if pre = [] then Panicked
      else
        (let keyStart = iPrefix + length pre in
         case (if suf \<noteq> [] then
                 (case slice_from strSeg iPrefix of
                    None \<Rightarrow> Panicked
                  | Some tail \<Rightarrow>
                      (case Index tail suf of
                         None \<Rightarrow> Returned (Inl (SuffixNotFound strSeg suf))
                       | Some iSuffix \<Rightarrow>
                           (case slice strSeg keyStart (iPrefix + iSuffix) of
                              None \<Rightarrow> Panicked
                            | Some key \<Rightarrow>
                                Returned (Inr (key, (iPrefix, iPrefix + iSuffix + length suf))))))
               else
                 (case slice_from strSeg keyStart of
                    None \<Rightarrow> Panicked
                  | Some tail \<Rightarrow>
                      (case except_FindStringIndex tail of
                         None \<Rightarrow> Returned (Inl (PrefixNotFollowedByName strSeg suf))
                       | Some (a, b) \<Rightarrow>
                           if a \<noteq> 0 then Returned (Inl (PrefixNotFollowedByName strSeg suf))
                           else
                             (case slice strSeg keyStart (keyStart + b) of
                                None \<Rightarrow> Panicked
                              | Some key \<Rightarrow> Returned (Inr (key, (iPrefix, keyStart + b))))))) of
           Panicked \<Rightarrow> Panicked
         | Returned (Inl err) \<Rightarrow> Returned (Inl err)
         | Returned (Inr (key, loc)) \<Rightarrow>
             (case slice_from strSeg keyStart of
                None \<Rightarrow> Panicked
              | Some tail \<Rightarrow>
                  (case Index tail pre of
                     None \<Rightarrow> Returned (Inr (key, keys @ [key], keyLocs @ [loc]))
                   | Some k \<Rightarrow> scan_keys pre suf strSeg (k + keyStart) (keys @ [key]) (keyLocs @ [loc])))))"
  by pat_completeness auto
termination
proof (relation "measure (\<lambda>(pre, suf, strSeg, iPrefix, keys, keyLocs). length strSeg - iPrefix)")
  fix pre suf strSeg :: string and iPrefix k :: nat and keys :: "string list"
    and keyLocs :: "(nat \<times> nat) list" and keyStart tail key loc
  assume "pre \<noteq> []" and "keyStart = iPrefix + length pre"
    and "slice_from strSeg keyStart = Some tail" and "Index tail pre = Some k"
  then have "k + length pre \<le> length tail" and "length tail = length strSeg - keyStart"
      and "0 < length pre"
    by (auto dest: Index_bound simp: slice_from_def slice_def split: if_splits)
  then have "length strSeg - (k + keyStart) < length strSeg - iPrefix"
    using \<open>keyStart = iPrefix + length pre\<close> by arith
  then show "((pre, suf, strSeg, k + keyStart, keys @ [key], keyLocs @ [loc]),
              (pre, suf, strSeg, iPrefix, keys, keyLocs))
             \<in> measure (\<lambda>(pre, suf, strSeg, iPrefix, keys, keyLocs). length strSeg - iPrefix)"
    by simp
qed simp

declare scan_keys.simps [simp del]

text \<open>
  \<^verbatim>\<open>newMixedSegment(s, keys, locs)\<close>: the loop over the keys collects the literal in front of
  every key; \<open>n\<close> is the loop index and \<open>start\<close> the end of the previous key.
\<close>

fun mixed_static :: "string \<Rightarrow> nat \<Rightarrow> nat \<Rightarrow> (nat \<times> nat) list \<Rightarrow> string list \<Rightarrow>
    (compile_error + string list) go_result" where
  "mixed_static s n start [] static = Returned (Inr static)"
| "mixed_static s n start ((a, b) # locs) static =
     (case slice s start a of
        None \<Rightarrow> Panicked
      | Some lit \<Rightarrow>
          if 0 < n \<and> lit = [] then Returned (Inl NoCharacterBetweenKeys)
          else mixed_static s (n + 1) b locs (static @ [lit]))"

definition newMixedSegment :: "string \<Rightarrow> string list \<Rightarrow> (nat \<times> nat) list \<Rightarrow>
    (compile_error + Segment) go_result" where
  "newMixedSegment s keys locs =
     (case mixed_static s 0 0 locs [] of
        Panicked \<Rightarrow> Panicked
      | Returned (Inl err) \<Rightarrow> Returned (Inl err)
      | Returned (Inr static) \<Rightarrow>
          if locs = [] then Panicked
          else case slice_from s (snd (last locs)) of
                 None \<Rightarrow> Panicked
               | Some tail \<Rightarrow> Returned (Inr (mixedSegment keys (static @ [tail]))))"

text \<open>
  The body of the loop of \<^verbatim>\<open>Compile\<close> over the segments of the pattern (lines 68 to 117)
  for one segment: the segment to append and the new value of the counter \<^verbatim>\<open>unnamed\<close> of
  the wildcards met so far.
\<close>

definition compile_segment :: "Path \<Rightarrow> nat \<Rightarrow> string \<Rightarrow> (compile_error + Segment \<times> nat) go_result" where
  "compile_segment p unnamed strSeg =
     (if strSeg = Wildcard p then Returned (Inr (wildcardSegment (''$'' @ Itoa unnamed), unnamed + 1))
      else case Index strSeg (Prefix p) of
        Some iPrefix \<Rightarrow>
          (case scan_keys (Prefix p) (Suffix p) strSeg iPrefix [] [] of
             Panicked \<Rightarrow> Panicked
           | Returned (Inl err) \<Rightarrow> Returned (Inl err)
           | Returned (Inr (key, keys, keyLocs)) \<Rightarrow>
               if length keyLocs = 1
                  \<and> int (snd (keyLocs ! 0)) - int (fst (keyLocs ! 0)) = int (length strSeg) then
                 Returned (Inr (paramSegment key (equalCheck p), unnamed))
               else
                 (case newMixedSegment strSeg keys keyLocs of
                    Panicked \<Rightarrow> Panicked
                  | Returned (Inl err) \<Rightarrow> Returned (Inl err)
                  | Returned (Inr mixed) \<Rightarrow> Returned (Inr (mixed, unnamed))))
      | None \<Rightarrow> Returned (Inr (staticSegment strSeg, unnamed)))"

fun compile_segments :: "Path \<Rightarrow> nat \<Rightarrow> string list \<Rightarrow> (compile_error + Path) go_result" where
  "compile_segments p unnamed [] = Returned (Inr p)"
| "compile_segments p unnamed (strSeg # strSegments) =
     (case compile_segment p unnamed strSeg of
        Panicked \<Rightarrow> Panicked
      | Returned (Inl err) \<Rightarrow> Returned (Inl err)
      | Returned (Inr (seg, unnamed')) \<Rightarrow>
          compile_segments (p\<lparr>Segments := Segments p @ [seg]\<rparr>) unnamed' strSegments)"

definition new_Path :: "string \<Rightarrow> Path" where
  "new_Path pth = \<lparr>path = pth, Seperator = ''/'', Prefix = '':'', Suffix = [], Wildcard = ''*'',
     Segments = [], match = [], save = \<lparr>i = 0, sIndex = 0, searchStart = 0, valid = False\<rparr>,
     equalCheck = False\<rparr>"

definition Compile :: "string \<Rightarrow> Option list \<Rightarrow> (compile_error + Path) go_result" where
  "Compile pth options =
     (case apply_Options options (new_Path pth) of
        Inl err \<Rightarrow> Returned (Inl err)
      | Inr p \<Rightarrow> compile_segments p 0 (Split pth (Seperator p)))"

subsection \<open>Matching\<close>

definition sliceSegment :: "string \<Rightarrow> string \<Rightarrow> nat \<Rightarrow> nat \<Rightarrow> (string \<times> bool) go_result" where
  "sliceSegment s sep start offset =
     (case slice_from s start of
        None \<Rightarrow> Panicked
      | Some str \<Rightarrow>
          (case slice_from str offset of
             None \<Rightarrow> Panicked
           | Some tail \<Rightarrow>
               (case Index tail sep of
                  None \<Rightarrow> Returned (str, True)
                | Some k \<Rightarrow>
                    (case slice_to str (k + offset) of
                       None \<Rightarrow> Panicked
                     | Some seg \<Rightarrow> Returned (seg, False)))))"

definition segmentLen :: "string \<Rightarrow> string \<Rightarrow> bool \<Rightarrow> nat" where
  "segmentLen s sep done = (if done then length s else length s + length sep)"

text \<open>
  The variables of the loop of \<^verbatim>\<open>Path.getMatch\<close>: the loop index \<^verbatim>\<open>i\<close>, \<^verbatim>\<open>sIndex\<close>,
  \<^verbatim>\<open>searchStart\<close>, the draft (nil is \<open>None\<close>), the save point \<^verbatim>\<open>p.save\<close>, which the loop
  updates in place, and how the loop is left: by its condition (\<open>Running\<close> until then), by
  \<^verbatim>\<open>break\<close>, by \<^verbatim>\<open>return nil\<close>, or by a panic.
\<close>

datatype loop_exit = Running | Break | ReturnNil | Panic_exit

record getMatch_vars =
  var_i :: nat
  var_sIndex :: nat
  var_searchStart :: nat
  draft :: "matchDraft option"
  p_save :: savePoint
  exit :: loop_exit

definition getMatch_cond :: "Path \<Rightarrow> getMatch_vars \<Rightarrow> bool" where
  "getMatch_cond p v = (exit v = Running \<and> draft v \<noteq> None \<and> var_i v < length (Segments p))"

text \<open>
  One round of the loop (lines 158 to 197), the increment of \<^verbatim>\<open>i\<close> included, in three
  parts. \<open>is_last\<close> is the test \<^verbatim>\<open>len(p.Segments)-1 == i\<close>.
\<close>

definition is_last :: "Path \<Rightarrow> getMatch_vars \<Rightarrow> bool" where
  "is_last p v = (Suc (var_i v) = length (Segments p))"

text \<open>
  Lines 167 to 171: a wildcard that is the last segment takes the rest of the input, and
  the loop is left by \<^verbatim>\<open>break\<close>.
\<close>

definition match_rest :: "Path \<Rightarrow> string \<Rightarrow> getMatch_vars \<Rightarrow> matchDraft \<Rightarrow> getMatch_vars" where
  "match_rest p s v d =
     (case slice_from s (var_sIndex v) of
        None \<Rightarrow> v\<lparr>exit := Panic_exit\<rparr>
      | Some tail \<Rightarrow>
          (case seg_Match (Segments p ! var_i v) d tail of
             Panicked \<Rightarrow> v\<lparr>exit := Panic_exit\<rparr>
           | Returned (ok, d') \<Rightarrow>
               v\<lparr>draft := (if ok then Some d' else None), var_sIndex := length s, exit := Break\<rparr>))"

text \<open>Lines 173 to 180: a wildcard that is not the last segment sets the save point.\<close>

definition set_save :: "Path \<Rightarrow> getMatch_vars \<Rightarrow> string \<Rightarrow> bool \<Rightarrow> savePoint" where
  "set_save p v str done =
     (if valid (p_save v) \<and> i (p_save v) = var_i v then
        (p_save v)\<lparr>searchStart := segmentLen str (Seperator p) done\<rparr>
      else \<lparr>i = var_i v, sIndex = var_sIndex v,
            searchStart = segmentLen str (Seperator p) done, valid = True\<rparr>)"

text \<open>
  Lines 183 to 197: the segment is matched against \<open>str\<close>. After a failure with a valid
  save point the loop goes back to it: \<^verbatim>\<open>continue\<close> after \<^verbatim>\<open>i = p.save.i - 1\<close> resumes with
  \<^verbatim>\<open>i = p.save.i\<close>, and the draft object stays as the failed call has left it.
\<close>

definition match_segment :: "Path \<Rightarrow> getMatch_vars \<Rightarrow> matchDraft \<Rightarrow> string \<Rightarrow> bool \<Rightarrow> savePoint \<Rightarrow>
    getMatch_vars" where
  "match_segment p v d str done sv =
     (case seg_Match (Segments p ! var_i v) d str of
        Panicked \<Rightarrow> v\<lparr>p_save := sv, exit := Panic_exit\<rparr>
      | Returned (ok, d') \<Rightarrow>
          if \<not> ok \<and> valid sv then
            v\<lparr>var_i := i sv, var_sIndex := sIndex sv, var_searchStart := searchStart sv,
              draft := Some d', p_save := sv\<rparr>
          else if is_last p v \<and> \<not> done then
            v\<lparr>draft := (if ok then Some d' else None),
              var_sIndex := var_sIndex v + segmentLen str (Seperator p) done,
              var_searchStart := 0, p_save := sv, exit := ReturnNil\<rparr>
          else
            v\<lparr>var_i := var_i v + 1, draft := (if ok then Some d' else None),
              var_sIndex := var_sIndex v + segmentLen str (Seperator p) done,
              var_searchStart := 0, p_save := sv\<rparr>)"

definition getMatch_body :: "Path \<Rightarrow> string \<Rightarrow> getMatch_vars \<Rightarrow> getMatch_vars" where
  "getMatch_body p s v =
     (case draft v of
        None \<Rightarrow> v\<lparr>exit := Panic_exit\<rparr>
      | Some d \<Rightarrow>
          (case sliceSegment s (Seperator p) (var_sIndex v) (var_searchStart v) of
             Panicked \<Rightarrow> v\<lparr>exit := Panic_exit\<rparr>
           | Returned (str, done) \<Rightarrow>
               if done \<and> \<not> is_last p v then v\<lparr>exit := ReturnNil\<rparr>
               else if Multiple (Segments p ! var_i v) then
                 (if is_last p v then match_rest p s v d
                  else match_segment p v d str done (set_save p v str done))
               else match_segment p v d str done (p_save v)))"

definition getMatch_init :: "Path \<Rightarrow> bool \<Rightarrow> getMatch_vars" where
  "getMatch_init p c = \<lparr>var_i = 0, var_sIndex = 0, var_searchStart = 0,
     draft = Some (newMatchDraft c (match p)), p_save = save p, exit = Running\<rparr>"

text \<open>What \<^verbatim>\<open>getMatch\<close> returns once the loop is left (lines 199 to 202).\<close>

definition getMatch_return :: "string \<Rightarrow> getMatch_vars \<Rightarrow> Match option go_result" where
  "getMatch_return s v =
     (case exit v of
        Panic_exit \<Rightarrow> Panicked
      | ReturnNil \<Rightarrow> Returned None
      | _ \<Rightarrow>
          (case draft v of
             None \<Rightarrow> Returned None
           | Some d \<Rightarrow> if length s \<noteq> var_sIndex v then Returned None else Returned (Some (match_of d))))"

text \<open>
  \<^verbatim>\<open>func (p *Path) getMatch(s string, capture bool) Match\<close>. The loop need not end (with an
  empty separator it can repeat a round for ever); \<open>None\<close> stands for a call that does not
  return. A call that returns or panics yields its result and the path with the save
  point as the call has left it.
\<close>

definition getMatch_loop :: "Path \<Rightarrow> string \<Rightarrow> bool \<Rightarrow> getMatch_vars option" where
  "getMatch_loop p s c = while_option (getMatch_cond p) (getMatch_body p s) (getMatch_init p c)"

definition getMatch :: "Path \<Rightarrow> string \<Rightarrow> bool \<Rightarrow> (Match option go_result \<times> Path) option" where
  "getMatch p s c = map_option (\<lambda>v. (getMatch_return s v, p\<lparr>save := p_save v\<rparr>)) (getMatch_loop p s c)"

text \<open>\<^verbatim>\<open>Path.Match\<close> and \<^verbatim>\<open>Path.FindSubmatch\<close>.\<close>

definition is_match :: "Match option go_result \<Rightarrow> bool go_result" where
  "is_match r = (case r of Panicked \<Rightarrow> Panicked | Returned m \<Rightarrow> Returned (m \<noteq> None))"

definition Match :: "Path \<Rightarrow> string \<Rightarrow> (bool go_result \<times> Path) option" where
  "Match p s = map_option (\<lambda>(m, p'). (is_match m, p')) (getMatch p s (False \<or> equalCheck p))"

definition FindSubmatch :: "Path \<Rightarrow> string \<Rightarrow> (Match option go_result \<times> Path) option" where
  "FindSubmatch p s = getMatch p s True"

text \<open>The keys of the wildcard segments of a compiled pattern, in the order of the segments.\<close>

fun wildcard_keys :: "Segment list \<Rightarrow> string list" where
  "wildcard_keys [] = []"
| "wildcard_keys (wildcardSegment key # segs) = key # wildcard_keys segs"
| "wildcard_keys (seg # segs) = wildcard_keys segs"

text \<open>
  The draft that captures nothing, and the loop variables with the draft replaced by it:
  what a run with \<open>capture = false\<close> carries on a path compiled without captures.
\<close>

definition no_draft :: matchDraft where
  "no_draft = \<lparr>capture = False, match_of = []\<rparr>"

definition erase :: "getMatch_vars \<Rightarrow> getMatch_vars" where
  "erase v = v\<lparr>draft := map_option (\<lambda>d. no_draft) (draft v)\<rparr>"

section \<open>The role manager (package rbac)\<close>

text \<open>
  The type \<^verbatim>\<open>Role\<close> is not part of the sources at hand; the role manager reads the field
  \<^verbatim>\<open>name\<close> of a role and calls its methods. A pointer to a role is represented by the
  name of the role, which no code at hand assigns after \<^verbatim>\<open>newRole\<close>, and a number that
  tells apart the roles created at different times. The state of all role objects (their
  edges) has the type \<open>'x\<close> and is read and changed only by the methods of \<^verbatim>\<open>Role\<close>, which
  are parameters, as are the methods of the cache \<^verbatim>\<open>util.SyncLRUCache\<close>, whose state has
  the type \<open>'c\<close>.
\<close>

datatype Role = Role (name: string) (ident: nat)

record ('x, 'c) RoleOps =
  newRole :: "Role \<Rightarrow> 'x \<Rightarrow> 'x"
  addMatch :: "Role \<Rightarrow> Role \<Rightarrow> 'x \<Rightarrow> 'x"
  removeMatches :: "Role \<Rightarrow> 'x \<Rightarrow> 'x"
  rangeRoles :: "'x \<Rightarrow> Role \<Rightarrow> (string \<times> Role) list"
  getRoles :: "'x \<Rightarrow> Role \<Rightarrow> string list"
  getUsers :: "'x \<Rightarrow> Role \<Rightarrow> string list"
  NewSyncLRUCache :: "nat \<Rightarrow> 'c"
  cache_Get :: "'c \<Rightarrow> string \<Rightarrow> bool option \<times> 'c"
  cache_Put :: "'c \<Rightarrow> string \<Rightarrow> bool \<Rightarrow> 'c"

text \<open>\<^verbatim>\<open>util.IMatcher\<close>, an interface with the methods \<^verbatim>\<open>Match\<close> and \<^verbatim>\<open>IsPattern\<close>.\<close>

record IMatcher =
  matcher_Match :: "string \<Rightarrow> string \<Rightarrow> bool"
  matcher_IsPattern :: "string \<Rightarrow> bool"

text \<open>
  \<^verbatim>\<open>RoleManager\<close>. A \<^verbatim>\<open>sync.Map\<close> is an association list with at most one entry for a key:
  \<^verbatim>\<open>Store\<close> replaces the entry of the key or appends one, and \<^verbatim>\<open>Range\<close>, whose order Go
  leaves open, visits the entries in the order of the list. \<^verbatim>\<open>patternRoles\<close> only ever
  holds nil values and is the list of its keys.
\<close>

record ('x, 'c) RoleManager =
  allRoles :: "(string \<times> Role) list"
  patternRoles :: "string list"
  maxHierarchyLevel :: int
  matcher :: "IMatcher option"
  domainMatcher :: "IMatcher option"
  matchingFuncCache :: 'c
  role_state :: 'x
  next_ident :: nat

text \<open>\<^verbatim>\<open>Clear\<close> and \<^verbatim>\<open>NewRoleManager\<close>; \<open>x0\<close> is the state of no role objects.\<close>

definition Clear :: "('x, 'c) RoleOps \<Rightarrow> ('x, 'c) RoleManager \<Rightarrow> ('x, 'c) RoleManager" where
  "Clear ops rm = rm\<lparr>matchingFuncCache := NewSyncLRUCache ops 100, allRoles := [], patternRoles := []\<rparr>"

definition NewRoleManager :: "('x, 'c) RoleOps \<Rightarrow> 'x \<Rightarrow> int \<Rightarrow> ('x, 'c) RoleManager" where
  "NewRoleManager ops x0 lvl =
     (Clear ops \<lparr>allRoles = [], patternRoles = [], maxHierarchyLevel = 0, matcher = None,
        domainMatcher = None, matchingFuncCache = NewSyncLRUCache ops 100, role_state = x0,
        next_ident = 0\<rparr>)\<lparr>maxHierarchyLevel := lvl\<rparr>"

text \<open>
  \<^verbatim>\<open>func (rm *RoleManager) match(str string, pattern string) bool\<close>. Every call of the
  source stands behind a test \<^verbatim>\<open>rm.matcher != nil\<close>; the model hands over the matcher that
  the test has found.
\<close>

definition match_rm :: "('x, 'c) RoleOps \<Rightarrow> IMatcher \<Rightarrow> ('x, 'c) RoleManager \<Rightarrow> string \<Rightarrow> string \<Rightarrow>
    bool \<times> ('x, 'c) RoleManager" where
  "match_rm ops m rm str pattern =
     (let cacheKey = str @ ''$$'' @ pattern in
      case cache_Get ops (matchingFuncCache rm) cacheKey of
        (Some v, c) \<Rightarrow> (v, rm\<lparr>matchingFuncCache := c\<rparr>)
      | (None, c) \<Rightarrow>
          (let matched = matcher_Match m str pattern in
           (matched, rm\<lparr>matchingFuncCache := cache_Put ops c cacheKey matched\<rparr>)))"

text \<open>
  \<^verbatim>\<open>rangeMatchingRoles\<close> over the entries of \<^verbatim>\<open>allRoles\<close>, and \<^verbatim>\<open>rangeMatchingPatterns\<close> over
  the keys of \<^verbatim>\<open>patternRoles\<close>; \<open>fn\<close> is a method of \<^verbatim>\<open>Role\<close> and changes the state of the
  role objects. In the second the type assertion on a pattern without an entry in
  \<^verbatim>\<open>allRoles\<close> panics.
\<close>

fun rangeMatchingRoles :: "('x, 'c) RoleOps \<Rightarrow> IMatcher \<Rightarrow> string \<Rightarrow> (Role \<Rightarrow> 'x \<Rightarrow> 'x) \<Rightarrow>
    (string \<times> Role) list \<Rightarrow> ('x, 'c) RoleManager \<Rightarrow> ('x, 'c) RoleManager" where
  "rangeMatchingRoles ops m pattern fn [] rm = rm"
| "rangeMatchingRoles ops m pattern fn ((nm, role) # entries) rm =
     (if pattern \<noteq> nm then
        (case match_rm ops m rm nm pattern of
           (True, rm') \<Rightarrow>
             rangeMatchingRoles ops m pattern fn entries (rm'\<lparr>role_state := fn role (role_state rm')\<rparr>)
         | (False, rm') \<Rightarrow> rangeMatchingRoles ops m pattern fn entries rm')
      else rangeMatchingRoles ops m pattern fn entries rm)"

fun rangeMatchingPatterns :: "('x, 'c) RoleOps \<Rightarrow> IMatcher \<Rightarrow> string \<Rightarrow> (Role \<Rightarrow> 'x \<Rightarrow> 'x) \<Rightarrow>
    string list \<Rightarrow> ('x, 'c) RoleManager \<Rightarrow> ('x, 'c) RoleManager go_result" where
  "rangeMatchingPatterns ops m nm fn [] rm = Returned rm"
| "rangeMatchingPatterns ops m nm fn (pattern # patterns) rm =
     (if pattern \<noteq> nm then
        (case match_rm ops m rm nm pattern of
           (True, rm') \<Rightarrow>
             (case map_of (allRoles rm') pattern of
                None \<Rightarrow> Panicked
              | Some role \<Rightarrow>
                  rangeMatchingPatterns ops m nm fn patterns (rm'\<lparr>role_state := fn role (role_state rm')\<rparr>))
         | (False, rm') \<Rightarrow> rangeMatchingPatterns ops m nm fn patterns rm')
      else rangeMatchingPatterns ops m nm fn patterns rm)"

text \<open>\<^verbatim>\<open>getRole\<close> loads or creates a role: the role, whether it was created, the manager.\<close>

definition getRole :: "('x, 'c) RoleOps \<Rightarrow> ('x, 'c) RoleManager \<Rightarrow> string \<Rightarrow>
    (Role \<times> bool \<times> ('x, 'c) RoleManager) go_result" where
  "getRole ops rm nm =
     (case map_of (allRoles rm) nm of
        Some role \<Rightarrow> Returned (role, False, rm)
      | None \<Rightarrow>
          (let role = Role nm (next_ident rm);
               rm1 = rm\<lparr>allRoles := AList.update nm role (allRoles rm),
                        role_state := newRole ops role (role_state rm),
                        next_ident := next_ident rm + 1\<rparr>
           in case matcher rm1 of
                None \<Rightarrow> Returned (role, True, rm1)
              | Some m \<Rightarrow>
                  if matcher_IsPattern m nm then
                    (let rm2 = rm1\<lparr>patternRoles :=
                           (if nm \<in> set (patternRoles rm1) then patternRoles rm1
                            else patternRoles rm1 @ [nm])\<rparr>
                     in Returned (role, True,
                          rangeMatchingRoles ops m nm (\<lambda>r. addMatch ops role r) (allRoles rm2) rm2))
                  else
                    (case rangeMatchingPatterns ops m nm (\<lambda>r. addMatch ops r role) (patternRoles rm1) rm1 of
                       Panicked \<Rightarrow> Panicked
                     | Returned rm3 \<Rightarrow> Returned (role, True, rm3))))"

text \<open>\<^verbatim>\<open>removeRole\<close>, with \<^verbatim>\<open>loadAndDelete\<close> inlined.\<close>

definition removeRole :: "('x, 'c) RoleOps \<Rightarrow> ('x, 'c) RoleManager \<Rightarrow> string \<Rightarrow> ('x, 'c) RoleManager" where
  "removeRole ops rm nm =
     (let rm1 = (case map_of (allRoles rm) nm of
                   Some role \<Rightarrow> rm\<lparr>allRoles := AList.delete nm (allRoles rm),
                                    role_state := removeMatches ops role (role_state rm)\<rparr>
                 | None \<Rightarrow> rm)
      in rm1\<lparr>patternRoles := removeAll nm (patternRoles rm1)\<rparr>)"

text \<open>
  \<^verbatim>\<open>hasLinkHelper\<close>. The frontier \<^verbatim>\<open>roles\<close> and the next frontier \<^verbatim>\<open>nextRoles\<close> are Go maps
  from a name to a role, here association lists; the loop over a frontier visits it in the
  order of the list. \<open>hasLink_level\<close> is the loop over one frontier: whether it has
  returned true, the next frontier, the manager.
\<close>

definition add_roles :: "(string \<times> Role) list \<Rightarrow> (string \<times> Role) list \<Rightarrow> (string \<times> Role) list" where
  "add_roles found nextRoles = fold (\<lambda>(key, v) nx. AList.update key v nx) found nextRoles"

fun hasLink_level :: "('x, 'c) RoleOps \<Rightarrow> ('x, 'c) RoleManager \<Rightarrow> string \<Rightarrow> (string \<times> Role) list \<Rightarrow>
    (string \<times> Role) list \<Rightarrow> bool \<times> (string \<times> Role) list \<times> ('x, 'c) RoleManager" where
  "hasLink_level ops rm targetName [] nextRoles = (False, nextRoles, rm)"
| "hasLink_level ops rm targetName ((key, role) # roles) nextRoles =
     (if targetName = name role then (True, nextRoles, rm)
      else case matcher rm of
        None \<Rightarrow>
          hasLink_level ops rm targetName roles (add_roles (rangeRoles ops (role_state rm) role) nextRoles)
      | Some m \<Rightarrow>
          (case match_rm ops m rm (name role) targetName of
             (True, rm') \<Rightarrow> (True, nextRoles, rm')
           | (False, rm') \<Rightarrow>
               hasLink_level ops rm' targetName roles
                 (add_roles (rangeRoles ops (role_state rm') role) nextRoles)))"

function hasLinkHelper :: "('x, 'c) RoleOps \<Rightarrow> ('x, 'c) RoleManager \<Rightarrow> string \<Rightarrow> (string \<times> Role) list \<Rightarrow>
    int \<Rightarrow> bool \<times> ('x, 'c) RoleManager" where
  "hasLinkHelper ops rm targetName roles level =
     (if level \<le> 0 \<or> roles = [] then (False, rm)
      else case hasLink_level ops rm targetName roles [] of
             (True, nextRoles, rm') \<Rightarrow> (True, rm')
           | (False, nextRoles, rm') \<Rightarrow> hasLinkHelper ops rm' targetName nextRoles (level - 1))"
  by pat_completeness auto
termination
  by (relation "measure (\<lambda>(ops, rm, targetName, roles, level). nat level)") auto

declare hasLinkHelper.simps [simp del]

text \<open>
  \<^verbatim>\<open>HasLink\<close>. The deferred calls of \<^verbatim>\<open>removeRole\<close> run when the function returns, the one
  deferred last first.
\<close>

definition HasLink_search :: "('x, 'c) RoleOps \<Rightarrow> ('x, 'c) RoleManager \<Rightarrow> string \<Rightarrow> string \<Rightarrow>
    ((bool \<times> error option) \<times> ('x, 'c) RoleManager) go_result" where
  "HasLink_search ops rm name1 name2 =
     (case getRole ops rm name1 of
        Panicked \<Rightarrow> Panicked
      | Returned (user, userCreated, rm1) \<Rightarrow>
          (case getRole ops rm1 name2 of
             Panicked \<Rightarrow> Panicked
           | Returned (role, roleCreated, rm2) \<Rightarrow>
               (case hasLinkHelper ops rm2 (name role) [(name user, user)] (maxHierarchyLevel rm2) of
                  (b, rm3) \<Rightarrow>
                    (let rm4 = (if roleCreated then removeRole ops rm3 (name role) else rm3);
                         rm5 = (if userCreated then removeRole ops rm4 (name user) else rm4)
                     in Returned ((b, None), rm5)))))"

definition HasLink :: "('x, 'c) RoleOps \<Rightarrow> ('x, 'c) RoleManager \<Rightarrow> string \<Rightarrow> string \<Rightarrow>
    ((bool \<times> error option) \<times> ('x, 'c) RoleManager) go_result" where
  "HasLink ops rm name1 name2 =
     (if name1 = name2 then Returned ((True, None), rm)
      else case matcher rm of
        None \<Rightarrow> HasLink_search ops rm name1 name2
      | Some m \<Rightarrow>
          (case match_rm ops m rm name1 name2 of
             (True, rm') \<Rightarrow> Returned ((True, None), rm')
           | (False, rm') \<Rightarrow> HasLink_search ops rm' name1 name2))"

text \<open>\<^verbatim>\<open>GetRoles\<close> and \<^verbatim>\<open>GetUsers\<close>.\<close>

definition GetRoles :: "('x, 'c) RoleOps \<Rightarrow> ('x, 'c) RoleManager \<Rightarrow> string \<Rightarrow>
    ((string list \<times> error option) \<times> ('x, 'c) RoleManager) go_result" where
  "GetRoles ops rm nm =
     (case getRole ops rm nm of
        Panicked \<Rightarrow> Panicked
      | Returned (user, created, rm1) \<Rightarrow>
          (let found = getRoles ops (role_state rm1) user;
               rm2 = (if created then removeRole ops rm1 (name user) else rm1)
           in Returned ((found, None), rm2)))"

definition GetUsers :: "('x, 'c) RoleOps \<Rightarrow> ('x, 'c) RoleManager \<Rightarrow> string \<Rightarrow>
    ((string list \<times> error option) \<times> ('x, 'c) RoleManager) go_result" where
  "GetUsers ops rm nm =
     (case getRole ops rm nm of
        Panicked \<Rightarrow> Panicked
      | Returned (role, created, rm1) \<Rightarrow>
          (let found = getUsers ops (role_state rm1) role;
               rm2 = (if created then removeRole ops rm1 (name role) else rm1)
           in Returned ((found, None), rm2)))"

text \<open>
  A concrete instance of the parameters for running examples: the state of the role
  objects lists, for the name of a role, the roles it inherits; there are no match edges,
  and the cache keeps nothing.
\<close>

definition edge_ops :: "((string \<times> (string \<times> Role) list) list, unit) RoleOps" where
  "edge_ops = \<lparr>newRole = (\<lambda>r x. x), addMatch = (\<lambda>a b x. x), removeMatches = (\<lambda>r x. x),
     rangeRoles = (\<lambda>x r. case map_of x (name r) of None \<Rightarrow> [] | Some rs \<Rightarrow> rs),
     getRoles = (\<lambda>x r. case map_of x (name r) of None \<Rightarrow> [] | Some rs \<Rightarrow> map fst rs),
     getUsers = (\<lambda>x r. map fst (filter (\<lambda>(u, rs). name r \<in> fst ` set rs) x)),
     NewSyncLRUCache = (\<lambda>n. ()), cache_Get = (\<lambda>c k. (None, c)), cache_Put = (\<lambda>c k v. c)\<rparr>"

section \<open>Properties of the rule table\<close>

lemma AddRule_present:
  "ruleMap p (Hash r) \<noteq> None \<Longrightarrow> AddRule Hash p r = ((False, None), p)"
  by (auto simp: AddRule_def Let_def)

lemma AddRule_absent:
  "ruleMap p (Hash r) = None \<Longrightarrow>
   AddRule Hash p r =
     ((True, None), p\<lparr>ruleMap := (ruleMap p)(Hash r \<mapsto> r), emitted := emitted p @ [EVT_RULE_ADDED r]\<rparr>)"
  by (simp add: AddRule_def EmitEvent_def Let_def)

lemma RemoveRule_absent:
  "ruleMap p (Hash r) = None \<Longrightarrow> RemoveRule Hash p r = ((False, None), p)"
  by (simp add: RemoveRule_def Let_def)

lemma AddRule_no_error: "snd (fst (AddRule Hash p r)) = None"
  by (simp add: AddRule_def Let_def split: option.splits)

lemma RemoveRule_no_error: "snd (fst (RemoveRule Hash p r)) = None"
  by (simp add: RemoveRule_def Let_def split: option.splits)

lemma AddRule_then_present: "ruleMap (snd (AddRule Hash p r)) (Hash r) \<noteq> None"
  by (simp add: AddRule_def EmitEvent_def Let_def split: option.splits)

text \<open>
  Claim C3. Adding a rule whose fingerprint is already in the table returns
  \<open>(false, nil)\<close>, leaves the table and the emitted events as they were; hence a
  second \<open>AddRule r\<close> right after a first one changes nothing, and starting from a table
  without \<open>r\<close> the two calls together emit exactly one \<open>RULE_ADDED\<close>. Removing a rule
  whose fingerprint is absent returns \<open>(false, nil)\<close> and changes nothing. Neither
  operation ever returns an error.
\<close>

theorem C3_add_remove_idempotent:
  "(ruleMap p (Hash r) \<noteq> None \<longrightarrow> AddRule Hash p r = ((False, None), p))
   \<and> AddRule Hash (snd (AddRule Hash p r)) r = ((False, None), snd (AddRule Hash p r))
   \<and> (ruleMap p (Hash r) = None \<longrightarrow>
        emitted (snd (AddRule Hash (snd (AddRule Hash p r)) r)) = emitted p @ [EVT_RULE_ADDED r])
   \<and> (ruleMap p (Hash r) = None \<longrightarrow> RemoveRule Hash p r = ((False, None), p))
   \<and> snd (fst (AddRule Hash p r)) = None
   \<and> snd (fst (RemoveRule Hash p r)) = None"
proof -
  have second: "AddRule Hash (snd (AddRule Hash p r)) r = ((False, None), snd (AddRule Hash p r))"
    by (rule AddRule_present) (rule AddRule_then_present)
  have once: "ruleMap p (Hash r) = None \<Longrightarrow>
      emitted (snd (AddRule Hash (snd (AddRule Hash p r)) r)) = emitted p @ [EVT_RULE_ADDED r]"
    by (simp add: second) (simp add: AddRule_absent)
  show ?thesis
    using second once AddRule_present [of p Hash r] RemoveRule_absent [of p Hash r]
    by (simp add: AddRule_no_error RemoveRule_no_error)
qed

theorem C3_add_remove_idempotent_witness:
  "AddRule concat (snd (AddRule concat NewPolicy [''p'', ''alice'', ''data1'', ''read'']))
      [''p'', ''alice'', ''data1'', ''read'']
     = ((False, None), snd (AddRule concat NewPolicy [''p'', ''alice'', ''data1'', ''read'']))
   \<and> emitted (snd (AddRule concat (snd (AddRule concat NewPolicy [''p'', ''alice'', ''data1'', ''read'']))
        [''p'', ''alice'', ''data1'', ''read'']))
     = [EVT_RULE_ADDED [''p'', ''alice'', ''data1'', ''read'']]
   \<and> RemoveRule concat NewPolicy [''p'', ''alice'', ''data1'', ''read''] = ((False, None), NewPolicy)"
proof -
  have absent: "ruleMap NewPolicy (concat [''p'', ''alice'', ''data1'', ''read'']) = None"
    by (simp add: NewPolicy_def)
  have quiet: "emitted NewPolicy = []"
    by (simp add: NewPolicy_def)
  from C3_add_remove_idempotent [of NewPolicy concat "[''p'', ''alice'', ''data1'', ''read'']"]
  have "AddRule concat (snd (AddRule concat NewPolicy [''p'', ''alice'', ''data1'', ''read'']))
      [''p'', ''alice'', ''data1'', ''read'']
     = ((False, None), snd (AddRule concat NewPolicy [''p'', ''alice'', ''data1'', ''read'']))"
    and "emitted (snd (AddRule concat (snd (AddRule concat NewPolicy [''p'', ''alice'', ''data1'', ''read'']))
        [''p'', ''alice'', ''data1'', ''read'']))
     = emitted NewPolicy @ [EVT_RULE_ADDED [''p'', ''alice'', ''data1'', ''read'']]"
    and "RemoveRule concat NewPolicy [''p'', ''alice'', ''data1'', ''read''] = ((False, None), NewPolicy)"
    using absent by blast+
  then show ?thesis
    by (simp only: quiet append_Nil simp_thms)
qed

section \<open>Properties of the enforcer\<close>

lemma RangeMatches_rules_append:
  "\<forall>x\<in>set pre. \<exists>b. ev x = Inr b \<Longrightarrow>
   RangeMatches_rules ev (pre @ rest) fn st =
     (case visit fn (matching ev pre) st of
        (True, st') \<Rightarrow> RangeMatches_rules ev rest fn st'
      | (False, st') \<Rightarrow> (None, st'))"
proof (induction pre arbitrary: st)
  case Nil
  then show ?case by (simp add: matching_def)
next
  case (Cons r pre)
  then obtain b where b: "ev r = Inr b" by auto
  show ?case
  proof (cases b)
    case True
    with b Cons show ?thesis
      by (cases "fn st r") (auto simp: matching_def split: bool.splits)
  next
    case False
    with b Cons show ?thesis by (simp add: matching_def)
  qed
qed

lemma nprefixes_nonempty: "p \<in> set (nprefixes ms) \<Longrightarrow> p \<noteq> []"
  by (cases ms) auto

lemma nprefixes_snoc: "nprefixes (xs @ [x]) = nprefixes xs @ [xs @ [x]]"
  by (induction xs) auto

lemma visit_quiet:
  "\<forall>p\<in>set (nprefixes ms). quiet_from E G R e p \<Longrightarrow>
   effects v = map G R \<Longrightarrow> matches v = R \<Longrightarrow> effector v = (e, log) \<Longrightarrow>
   res v = Indeterminate \<Longrightarrow> eftErr v = None \<Longrightarrow>
   visit (enforce_fn G (logged E)) ms v =
     (True, \<lparr>res = Indeterminate, effects = map G (R @ ms), matches = R @ ms, eftErr = None,
      effector = (fed E G R ms e, log @ map (\<lambda>p. (map G (R @ p), R @ p, False)) (nprefixes ms))\<rparr>)"
proof (induction ms arbitrary: v R e log)
  case Nil
  then show ?case by simp
next
  case (Cons r ms)
  have q: "quiet_from E G R e [r]" using Cons.prems(1) by simp
  obtain idx e1 where m: "E e (map G R @ [G r]) (R @ [r]) False = ((Indeterminate, idx, None), e1)"
    using q by (cases "E e (map G R @ [G r]) (R @ [r]) False")
      (auto simp: quiet_from_def answer_from_def)
  let ?v = "\<lparr>res = Indeterminate, effects = map G (R @ [r]), matches = R @ [r], eftErr = None,
      effector = (e1, log @ [(map G (R @ [r]), R @ [r], False)])\<rparr>"
  have step: "enforce_fn G (logged E) v r = (True, ?v)"
    using m Cons.prems(2,3,4) by (simp add: enforce_fn_def logged_def Let_def)
  have "\<forall>p\<in>set (nprefixes ms). quiet_from E G (R @ [r]) e1 p"
  proof
    fix p assume p: "p \<in> set (nprefixes ms)"
    then have "p \<noteq> []" by (rule nprefixes_nonempty)
    moreover from p Cons.prems(1) have "quiet_from E G R e (r # p)" by simp
    ultimately show "quiet_from E G (R @ [r]) e1 p"
      using m by (simp add: quiet_from_def answer_from_def)
  qed
  then have "visit (enforce_fn G (logged E)) ms ?v =
     (True, \<lparr>res = Indeterminate, effects = map G ((R @ [r]) @ ms), matches = (R @ [r]) @ ms, eftErr = None,
      effector = (fed E G (R @ [r]) ms e1,
        (log @ [(map G (R @ [r]), R @ [r], False)])
          @ map (\<lambda>p. (map G ((R @ [r]) @ p), (R @ [r]) @ p, False)) (nprefixes ms))\<rparr>)"
    by (rule Cons.IH) simp_all
  then show ?case
    using step m by (simp add: comp_def)
qed

lemma visit_init:
  assumes "\<forall>p\<in>set (nprefixes ms). quiet E G e0 p"
  shows "visit (enforce_fn G (logged E)) ms
            \<lparr>res = Indeterminate, effects = [], matches = [], eftErr = None, effector = (e0, [])\<rparr>
     = (True, \<lparr>res = Indeterminate, effects = map G ms, matches = ms, eftErr = None,
          effector = (fed E G [] ms e0, calls G ms)\<rparr>)"
  using visit_quiet [of ms E G "[]" e0 _ "[]"] assms
  by (simp add: quiet_def calls_def)


lemma enforce_complete:
  assumes ok: "\<forall>x\<in>set rules. \<exists>b. ev x = Inr b"
    and q: "\<forall>p\<in>set (nprefixes (matching ev rules)). quiet E G e0 p"
  shows "map_prod id snd (EnforceWithContext (Some G) rules
            \<lparr>misconfigured = None, expr = ev, MergeEffects = logged E\<rparr> (e0, []))
     = (Return (fst (answer E G e0 (matching ev rules) True) = Allow) None,
        calls G (matching ev rules) @ [(map G (matching ev rules), matching ev rules, True)])"
proof -
  let ?ms = "matching ev rules"
  let ?fn = "enforce_fn G (logged E)"
  let ?v0 = "\<lparr>res = Indeterminate, effects = [], matches = [], eftErr = None, effector = (e0, [])\<rparr>"
  have "RangeMatches_rules ev (rules @ []) ?fn ?v0
      = (None, \<lparr>res = Indeterminate, effects = map G ?ms, matches = ?ms, eftErr = None,
          effector = (fed E G [] ?ms e0, calls G ?ms)\<rparr>)"
    unfolding RangeMatches_rules_append [OF ok] visit_init [OF q] by simp
  then show ?thesis
    by (cases "E (fed E G [] ?ms e0) (map G ?ms) ?ms True")
       (auto simp: EnforceWithContext_def enforce_def logged_def answer_def answer_from_def
             split: prod.splits)
qed

lemma enforce_stop:
  assumes split: "rules = pre @ r # rest"
    and ok: "\<forall>x\<in>set pre. \<exists>b. ev x = Inr b"
    and r: "ev r = Inr True"
    and q: "\<forall>p\<in>set (nprefixes (matching ev pre)). quiet E G e0 p"
    and nq: "\<not> quiet E G e0 (matching ev pre @ [r])"
  shows "\<exists>e. map_prod id snd (EnforceWithContext (Some G) rules
            \<lparr>misconfigured = None, expr = ev, MergeEffects = logged E\<rparr> (e0, []))
       = (Return (fst (answer E G e0 (matching ev pre @ [r]) False) = Allow
                   \<and> snd (snd (answer E G e0 (matching ev pre @ [r]) False)) = None) e,
          calls G (matching ev pre @ [r]))
     \<and> (snd (snd (answer E G e0 (matching ev pre @ [r]) False)) = None \<longrightarrow> e = None)"
proof -
  let ?ms = "matching ev pre"
  let ?fn = "enforce_fn G (logged E)"
  let ?v0 = "\<lparr>res = Indeterminate, effects = [], matches = [], eftErr = None, effector = (e0, [])\<rparr>"
  let ?v1 = "\<lparr>res = Indeterminate, effects = map G ?ms, matches = ?ms, eftErr = None,
          effector = (fed E G [] ?ms e0, calls G ?ms)\<rparr>"
  obtain d idx err e1 where m: "E (fed E G [] ?ms e0) (map G ?ms @ [G r]) (?ms @ [r]) False = ((d, idx, err), e1)"
    by (metis prod_cases3 surj_pair)
  have a: "answer E G e0 (?ms @ [r]) False = (d, idx, err)"
    using m by (simp add: answer_def answer_from_def)
  with nq have stop: "\<not> (d = Indeterminate \<and> err = None)"
    by (simp add: quiet_def quiet_from_def answer_def)
  have fn: "?fn ?v1 r = (False, \<lparr>res = d, effects = map G (?ms @ [r]), matches = ?ms @ [r], eftErr = err,
      effector = (e1, calls G (?ms @ [r]))\<rparr>)"
    using m stop by (auto simp: enforce_fn_def logged_def Let_def calls_def nprefixes_snoc)
  have "RangeMatches_rules ev rules ?fn ?v0
      = (None, \<lparr>res = d, effects = map G (?ms @ [r]), matches = ?ms @ [r], eftErr = err,
      effector = (e1, calls G (?ms @ [r]))\<rparr>)"
    unfolding split RangeMatches_rules_append [OF ok] visit_init [OF q]
    by (simp add: r fn)
  then have "map_prod id snd (EnforceWithContext (Some G) rules
            \<lparr>misconfigured = None, expr = ev, MergeEffects = logged E\<rparr> (e0, []))
       = (Return (d = Allow \<and> err = None) None, calls G (?ms @ [r]))"
    using stop by (auto simp: EnforceWithContext_def enforce_def)
  then show ?thesis
    unfolding a by simp
qed

lemma enforce_driver_error:
  assumes split: "rules = pre @ r # rest"
    and ok: "\<forall>x\<in>set pre. \<exists>b. ev x = Inr b"
    and r: "ev r = Inl err"
    and q: "\<forall>p\<in>set (nprefixes (matching ev pre)). quiet E G e0 p"
  shows "map_prod id snd (EnforceWithContext (Some G) rules
            \<lparr>misconfigured = None, expr = ev, MergeEffects = logged E\<rparr> (e0, []))
       = (Return False (Some err), calls G (matching ev pre))"
proof -
  let ?ms = "matching ev pre"
  let ?fn = "enforce_fn G (logged E)"
  let ?v0 = "\<lparr>res = Indeterminate, effects = [], matches = [], eftErr = None, effector = (e0, [])\<rparr>"
  have "RangeMatches_rules ev rules ?fn ?v0
      = (Some err, \<lparr>res = Indeterminate, effects = map G ?ms, matches = ?ms, eftErr = None,
          effector = (fed E G [] ?ms e0, calls G ?ms)\<rparr>)"
    unfolding split RangeMatches_rules_append [OF ok] visit_init [OF q]
    by (simp add: r)
  then show ?thesis
    by (simp add: EnforceWithContext_def enforce_def)
qed

lemma enforce_misconfigured:
  "map_prod id snd (EnforceWithContext (Some G) rules
            \<lparr>misconfigured = Some err, expr = ev, MergeEffects = logged E\<rparr> (e0, []))
       = (Return False (Some err), [])"
  by (simp add: EnforceWithContext_def enforce_def)

lemma matching_snoc: "matching ev (xs @ [x]) = (if ev x = Inr True then matching ev xs @ [x] else matching ev xs)"
  by (simp add: matching_def)

lemma enforce_cases:
  "((\<forall>x\<in>set rules. \<exists>b. ev x = Inr b) \<and> (\<forall>p\<in>set (nprefixes (matching ev rules)). quiet E G e0 p))
   \<or> (\<exists>pre r rest. rules = pre @ r # rest \<and> (\<forall>x\<in>set pre. \<exists>b. ev x = Inr b)
         \<and> (\<forall>p\<in>set (nprefixes (matching ev pre)). quiet E G e0 p)
         \<and> ((ev r = Inr True \<and> \<not> quiet E G e0 (matching ev pre @ [r])) \<or> (\<exists>err. ev r = Inl err)))"
proof (induction rules rule: rev_induct)
  case Nil
  then show ?case by (simp add: matching_def)
next
  case (snoc x xs)
  from snoc.IH show ?case
  proof
    assume a: "(\<forall>x\<in>set xs. \<exists>b. ev x = Inr b) \<and> (\<forall>p\<in>set (nprefixes (matching ev xs)). quiet E G e0 p)"
    show ?thesis
    proof (cases "ev x")
      case (Inl err)
      with a have "\<exists>pre r rest. xs @ [x] = pre @ r # rest \<and> (\<forall>x\<in>set pre. \<exists>b. ev x = Inr b)
         \<and> (\<forall>p\<in>set (nprefixes (matching ev pre)). quiet E G e0 p)
         \<and> ((ev r = Inr True \<and> \<not> quiet E G e0 (matching ev pre @ [r])) \<or> (\<exists>err. ev r = Inl err))"
        by (intro exI [of _ xs] exI [of _ x] exI [of _ "[]"]) auto
      then show ?thesis ..
    next
      case (Inr b)
      show ?thesis
      proof (cases "b \<and> \<not> quiet E G e0 (matching ev xs @ [x])")
        case True
        with a Inr have "\<exists>pre r rest. xs @ [x] = pre @ r # rest \<and> (\<forall>x\<in>set pre. \<exists>b. ev x = Inr b)
         \<and> (\<forall>p\<in>set (nprefixes (matching ev pre)). quiet E G e0 p)
         \<and> ((ev r = Inr True \<and> \<not> quiet E G e0 (matching ev pre @ [r])) \<or> (\<exists>err. ev r = Inl err))"
          by (intro exI [of _ xs] exI [of _ x] exI [of _ "[]"]) auto
        then show ?thesis ..
      next
        case False
        with a Inr have "(\<forall>y\<in>set (xs @ [x]). \<exists>b. ev y = Inr b)
          \<and> (\<forall>p\<in>set (nprefixes (matching ev (xs @ [x]))). quiet E G e0 p)"
          by (auto simp: matching_snoc nprefixes_snoc)
        then show ?thesis ..
      qed
    qed
  next
    assume "\<exists>pre r rest. xs = pre @ r # rest \<and> (\<forall>x\<in>set pre. \<exists>b. ev x = Inr b)
         \<and> (\<forall>p\<in>set (nprefixes (matching ev pre)). quiet E G e0 p)
         \<and> ((ev r = Inr True \<and> \<not> quiet E G e0 (matching ev pre @ [r])) \<or> (\<exists>err. ev r = Inl err))"
    then obtain pre r rest where "xs = pre @ r # rest" "\<forall>x\<in>set pre. \<exists>b. ev x = Inr b"
         "\<forall>p\<in>set (nprefixes (matching ev pre)). quiet E G e0 p"
         "(ev r = Inr True \<and> \<not> quiet E G e0 (matching ev pre @ [r])) \<or> (\<exists>err. ev r = Inl err)"
      by blast
    then have "\<exists>pre r rest. xs @ [x] = pre @ r # rest \<and> (\<forall>x\<in>set pre. \<exists>b. ev x = Inr b)
         \<and> (\<forall>p\<in>set (nprefixes (matching ev pre)). quiet E G e0 p)
         \<and> ((ev r = Inr True \<and> \<not> quiet E G e0 (matching ev pre @ [r])) \<or> (\<exists>err. ev r = Inl err))"
      by (intro exI [of _ pre] exI [of _ r] exI [of _ "rest @ [x]"]) simp
    then show ?thesis ..
  qed
qed

text \<open>
  Claim C1, as amended. The rules of the table are visited in order. After every matching
  rule \<open>MergeEffects\<close> is called with \<open>complete = false\<close> on the matches so far and their
  effects, and iteration continues while it answers \<open>Indeterminate\<close> without error.
  First case: every rule has been evaluated and every call has answered so; then
  \<open>MergeEffects\<close> is called exactly once more, with \<open>complete = true\<close> on all matches, and
  the enforcement returns true if and only if that decision is \<open>Allow\<close>. Second case: a
  call answers another decision or an error; iteration stops at this rule, whatever the
  rules after it are, no further call is made, and the enforcement returns true if and only
  if the call has answered \<open>Allow\<close> without error. Third case: the matcher fails on a rule;
  iteration ends there, no further call is made, and the enforcement returns false with
  that error; so it does when the matcher is misconfigured, without any call. The effector
  \<open>E\<close> is arbitrary and may keep state; the second component of each result is the list of
  the calls it has received.
\<close>

theorem C1_enforce_decision:
  "((\<forall>x\<in>set rules. \<exists>b. ev x = Inr b) \<and> (\<forall>p\<in>set (nprefixes (matching ev rules)). quiet E G e0 p) \<longrightarrow>
      map_prod id snd (EnforceWithContext (Some G) rules
          \<lparr>misconfigured = None, expr = ev, MergeEffects = logged E\<rparr> (e0, []))
        = (Return (fst (answer E G e0 (matching ev rules) True) = Allow) None,
           calls G (matching ev rules) @ [(map G (matching ev rules), matching ev rules, True)]))
   \<and> (\<forall>pre r rest. rules = pre @ r # rest \<and> (\<forall>x\<in>set pre. \<exists>b. ev x = Inr b) \<and> ev r = Inr True
          \<and> (\<forall>p\<in>set (nprefixes (matching ev pre)). quiet E G e0 p)
          \<and> \<not> quiet E G e0 (matching ev pre @ [r]) \<longrightarrow>
        (\<exists>e. map_prod id snd (EnforceWithContext (Some G) rules
                \<lparr>misconfigured = None, expr = ev, MergeEffects = logged E\<rparr> (e0, []))
              = (Return (fst (answer E G e0 (matching ev pre @ [r]) False) = Allow
                          \<and> snd (snd (answer E G e0 (matching ev pre @ [r]) False)) = None) e,
                 calls G (matching ev pre @ [r]))
            \<and> (snd (snd (answer E G e0 (matching ev pre @ [r]) False)) = None \<longrightarrow> e = None)))
   \<and> (\<forall>pre r rest err. rules = pre @ r # rest \<and> (\<forall>x\<in>set pre. \<exists>b. ev x = Inr b) \<and> ev r = Inl err
          \<and> (\<forall>p\<in>set (nprefixes (matching ev pre)). quiet E G e0 p) \<longrightarrow>
        map_prod id snd (EnforceWithContext (Some G) rules
            \<lparr>misconfigured = None, expr = ev, MergeEffects = logged E\<rparr> (e0, []))
          = (Return False (Some err), calls G (matching ev pre)))
   \<and> (\<forall>err. map_prod id snd (EnforceWithContext (Some G) rules
            \<lparr>misconfigured = Some err, expr = ev, MergeEffects = logged E\<rparr> (e0, []))
          = (Return False (Some err), []))"
  by (intro conjI impI allI)
     (blast intro: enforce_complete enforce_stop enforce_driver_error enforce_misconfigured)+


theorem C1_enforce_decision_witness:
  "map_prod id snd (EnforceWithContext (Some eft_column) [[''p'', ''alice'', ''data1'', ''read'', ''deny'']]
      \<lparr>misconfigured = None, expr = (\<lambda>r. Inr True), MergeEffects = logged (stateless some_allow)\<rparr> ((), []))
     = (Return False None,
        [([Deny], [[''p'', ''alice'', ''data1'', ''read'', ''deny'']], False),
         ([Deny], [[''p'', ''alice'', ''data1'', ''read'', ''deny'']], True)])
   \<and> map_prod id snd (EnforceWithContext (Some eft_column)
        [[''p'', ''alice'', ''data1'', ''read'', ''deny''], [''p'', ''bob'', ''data2'', ''write'', ''allow''],
         [''p'', ''carol'', ''data3'', ''read'', ''allow'']]
      \<lparr>misconfigured = None,
        expr = (\<lambda>r. if r = [''p'', ''carol'', ''data3'', ''read'', ''allow''] then Inl ''eval'' else Inr True),
        MergeEffects = logged (stateless some_allow)\<rparr> ((), []))
     = (Return True None,
        [([Deny], [[''p'', ''alice'', ''data1'', ''read'', ''deny'']], False),
         ([Deny, Allow], [[''p'', ''alice'', ''data1'', ''read'', ''deny''],
             [''p'', ''bob'', ''data2'', ''write'', ''allow'']], False)])
   \<and> map_prod id snd (EnforceWithContext (Some eft_column)
        [[''p'', ''alice'', ''data1'', ''read'', ''deny''], [''p'', ''carol'', ''data3'', ''read'', ''allow''],
         [''p'', ''bob'', ''data2'', ''write'', ''allow'']]
      \<lparr>misconfigured = None,
        expr = (\<lambda>r. if r = [''p'', ''carol'', ''data3'', ''read'', ''allow''] then Inl ''eval'' else Inr True),
        MergeEffects = logged (stateless some_allow)\<rparr> ((), []))
     = (Return False (Some ''eval''),
        [([Deny], [[''p'', ''alice'', ''data1'', ''read'', ''deny'']], False)])"
proof -
  let ?d = "[''p'', ''alice'', ''data1'', ''read'', ''deny'']"
  let ?a = "[''p'', ''bob'', ''data2'', ''write'', ''allow'']"
  let ?c = "[''p'', ''carol'', ''data3'', ''read'', ''allow'']"
  let ?ok = "(\<lambda>r. Inr True) :: Rule \<Rightarrow> error + bool"
  let ?ev = "(\<lambda>r. if r = ?c then Inl ''eval'' else Inr True) :: Rule \<Rightarrow> error + bool"
  let ?E = "stateless some_allow"
  have m1: "matching ?ok [?d] = [?d]" and m2: "matching ?ev [?d] = [?d]"
    by (simp_all add: matching_def)
  have q: "quiet ?E eft_column () [?d]" and nq: "\<not> quiet ?E eft_column () ([?d] @ [?a])"
    by (simp_all add: quiet_def quiet_from_def answer_from_def stateless_def some_allow_def eft_column_def)
  have ok1: "\<forall>x\<in>set [?d]. \<exists>b. ?ok x = Inr b" and ok2: "\<forall>x\<in>set [?d]. \<exists>b. ?ev x = Inr b"
    by auto
  have qs1: "\<forall>p\<in>set (nprefixes (matching ?ok [?d])). quiet ?E eft_column () p"
    and qs2: "\<forall>p\<in>set (nprefixes (matching ?ev [?d])). quiet ?E eft_column () p"
    using q by (simp_all add: m1 m2)
  have "map_prod id snd (EnforceWithContext (Some eft_column) [?d]
          \<lparr>misconfigured = None, expr = ?ok, MergeEffects = logged ?E\<rparr> ((), []))
     = (Return (fst (answer ?E eft_column () (matching ?ok [?d]) True) = Allow) None,
        calls eft_column (matching ?ok [?d]) @ [(map eft_column (matching ?ok [?d]), matching ?ok [?d], True)])"
    using C1_enforce_decision [of "[?d]" ?ok ?E eft_column "()"] ok1 qs1 by blast
  then have first: "map_prod id snd (EnforceWithContext (Some eft_column) [?d]
          \<lparr>misconfigured = None, expr = ?ok, MergeEffects = logged ?E\<rparr> ((), []))
     = (Return False None, [([Deny], [?d], False), ([Deny], [?d], True)])"
    by (simp add: m1 calls_def answer_def answer_from_def stateless_def some_allow_def eft_column_def)
  have pre2: "[?d, ?a, ?c] = [?d] @ ?a # [?c] \<and> (\<forall>x\<in>set [?d]. \<exists>b. ?ev x = Inr b) \<and> ?ev ?a = Inr True
      \<and> (\<forall>p\<in>set (nprefixes (matching ?ev [?d])). quiet ?E eft_column () p)
      \<and> \<not> quiet ?E eft_column () (matching ?ev [?d] @ [?a])"
    using ok2 qs2 nq by (simp add: m2)
  have "\<exists>e. map_prod id snd (EnforceWithContext (Some eft_column) [?d, ?a, ?c]
          \<lparr>misconfigured = None, expr = ?ev, MergeEffects = logged ?E\<rparr> ((), []))
       = (Return (fst (answer ?E eft_column () (matching ?ev [?d] @ [?a]) False) = Allow
                   \<and> snd (snd (answer ?E eft_column () (matching ?ev [?d] @ [?a]) False)) = None) e,
          calls eft_column (matching ?ev [?d] @ [?a]))
     \<and> (snd (snd (answer ?E eft_column () (matching ?ev [?d] @ [?a]) False)) = None \<longrightarrow> e = None)"
    using C1_enforce_decision [of "[?d, ?a, ?c]" ?ev ?E eft_column "()"] pre2 by blast
  then have second: "map_prod id snd (EnforceWithContext (Some eft_column) [?d, ?a, ?c]
          \<lparr>misconfigured = None, expr = ?ev, MergeEffects = logged ?E\<rparr> ((), []))
     = (Return True None, [([Deny], [?d], False), ([Deny, Allow], [?d, ?a], False)])"
    by (auto simp: m2 calls_def answer_def answer_from_def stateless_def some_allow_def eft_column_def)
  have pre3: "[?d, ?c, ?a] = [?d] @ ?c # [?a] \<and> (\<forall>x\<in>set [?d]. \<exists>b. ?ev x = Inr b) \<and> ?ev ?c = Inl ''eval''
      \<and> (\<forall>p\<in>set (nprefixes (matching ?ev [?d])). quiet ?E eft_column () p)"
    using ok2 qs2 by simp
  have "map_prod id snd (EnforceWithContext (Some eft_column) [?d, ?c, ?a]
          \<lparr>misconfigured = None, expr = ?ev, MergeEffects = logged ?E\<rparr> ((), []))
     = (Return False (Some ''eval''), calls eft_column (matching ?ev [?d]))"
    using C1_enforce_decision [of "[?d, ?c, ?a]" ?ev ?E eft_column "()"] pre3 by blast
  then have third: "map_prod id snd (EnforceWithContext (Some eft_column) [?d, ?c, ?a]
          \<lparr>misconfigured = None, expr = ?ev, MergeEffects = logged ?E\<rparr> ((), []))
     = (Return False (Some ''eval''), [([Deny], [?d], False)])"
    by (simp add: m2 calls_def eft_column_def)
  from first second third show ?thesis by simp
qed

text \<open>
  The claim as stated fails when the effector or the matcher reports an error. First: the
  table's only rule has been visited and the decision is still \<open>Indeterminate\<close>, yet no
  call with \<open>complete = true\<close> follows and the enforcement returns false although that
  call would have answered \<open>Allow\<close>. Second: the merged decision is \<open>Allow\<close>, yet the
  enforcement returns false. Third: the matcher fails on the only rule; iteration is over
  with no decision, yet no call at all is made.
\<close>

theorem C1_effector_error_counterexample:
  "EnforceWithContext (Some (\<lambda>rule. Allow)) [[''p'', ''alice'', ''data1'', ''read'']]
      \<lparr>misconfigured = None, expr = (\<lambda>r. Inr True),
        MergeEffects = logged (stateless (failing_effector Indeterminate))\<rparr> ((), [])
     = (Return False None, ((), [([Allow], [[''p'', ''alice'', ''data1'', ''read'']], False)]))
   \<and> fst (failing_effector Indeterminate [Allow] [[''p'', ''alice'', ''data1'', ''read'']] False) = Indeterminate
   \<and> fst (failing_effector Indeterminate [Allow] [[''p'', ''alice'', ''data1'', ''read'']] True) = Allow
   \<and> EnforceWithContext (Some (\<lambda>rule. Allow)) [[''p'', ''alice'', ''data1'', ''read'']]
      \<lparr>misconfigured = None, expr = (\<lambda>r. Inr True),
        MergeEffects = logged (stateless (failing_effector Allow))\<rparr> ((), [])
     = (Return False None, ((), [([Allow], [[''p'', ''alice'', ''data1'', ''read'']], False)]))
   \<and> fst (failing_effector Allow [Allow] [[''p'', ''alice'', ''data1'', ''read'']] False) = Allow
   \<and> EnforceWithContext (Some (\<lambda>rule. Allow)) [[''p'', ''alice'', ''data1'', ''read'']]
      \<lparr>misconfigured = None, expr = (\<lambda>r. Inl ''eval''),
        MergeEffects = logged (stateless (failing_effector Indeterminate))\<rparr> ((), [])
     = (Return False (Some ''eval''), ((), []))
   \<and> fst (failing_effector Indeterminate [] [] True) = Allow"
  by (simp add: EnforceWithContext_def enforce_def enforce_fn_def logged_def stateless_def
      failing_effector_def Let_def)

section \<open>Properties of Compile\<close>

lemma apply_Option_Segments:
  "apply_Option opt p = Inr p' \<Longrightarrow> Segments p' = Segments p \<and> match p' = match p \<and> save p' = save p"
  by (cases opt) (auto split: if_splits)

lemma apply_Options_Segments:
  "apply_Options opts p = Inr p' \<Longrightarrow> Segments p' = Segments p \<and> match p' = match p \<and> save p' = save p"
proof (induction opts arbitrary: p)
  case Nil
  then show ?case by simp
next
  case (Cons opt opts)
  then show ?case
    by (cases "apply_Option opt p") (auto dest: apply_Option_Segments)
qed

lemma newMixedSegment_mixed:
  "newMixedSegment s keys locs = Returned (Inr seg) \<Longrightarrow> \<exists>static. seg = mixedSegment keys static"
  by (auto simp: newMixedSegment_def split: go_result.splits sum.splits if_splits option.splits)

lemma compile_segment_kinds:
  assumes "compile_segment p n strSeg = Returned (Inr (seg, n'))"
  shows "(strSeg = Wildcard p \<and> seg = wildcardSegment (''$'' @ Itoa n) \<and> n' = n + 1)
       \<or> (strSeg \<noteq> Wildcard p \<and> n' = n \<and>
            ((\<exists>key. seg = paramSegment key (equalCheck p)) \<or> (\<exists>keys static. seg = mixedSegment keys static)
              \<or> seg = staticSegment strSeg))"
  using assms
  by (auto simp: compile_segment_def split: if_splits option.splits go_result.splits sum.splits
      dest!: newMixedSegment_mixed)

lemma wildcard_keys_append: "wildcard_keys (xs @ ys) = wildcard_keys xs @ wildcard_keys ys"
  by (induction xs rule: wildcard_keys.induct) auto

lemma map_upt_shift: "map f [n..<n + Suc m] = f n # map f [Suc n..<Suc n + m]"
  by (simp add: upt_rec [of n] del: upt_Suc)

lemma compile_segments_result:
  "compile_segments p n strs = Returned (Inr p') \<Longrightarrow>
   Seperator p' = Seperator p \<and> Prefix p' = Prefix p \<and> Suffix p' = Suffix p \<and> Wildcard p' = Wildcard p
   \<and> equalCheck p' = equalCheck p \<and> match p' = match p \<and> save p' = save p \<and> path p' = path p
   \<and> (\<exists>segs. Segments p' = Segments p @ segs \<and> length segs = length strs
        \<and> (\<forall>k<length strs. Multiple (segs ! k) = (strs ! k = Wildcard p))
        \<and> wildcard_keys segs = map (\<lambda>k. ''$'' @ Itoa k) [n..<n + length (wildcard_keys segs)]
        \<and> (\<forall>key eq. paramSegment key eq \<in> set segs \<longrightarrow> eq = equalCheck p))"
proof (induction strs arbitrary: p n)
  case Nil
  then show ?case by simp
next
  case (Cons strSeg strs)
  from Cons.prems obtain seg n' where
    seg: "compile_segment p n strSeg = Returned (Inr (seg, n'))"
    and rest: "compile_segments (p\<lparr>Segments := Segments p @ [seg]\<rparr>) n' strs = Returned (Inr p')"
    by (auto split: go_result.splits sum.splits)
  from Cons.IH [OF rest] obtain segs where
    f: "Seperator p' = Seperator p" "Prefix p' = Prefix p" "Suffix p' = Suffix p" "Wildcard p' = Wildcard p"
       "equalCheck p' = equalCheck p" "match p' = match p" "save p' = save p" "path p' = path p"
    and s: "Segments p' = (Segments p @ [seg]) @ segs" "length segs = length strs"
       "\<forall>k<length strs. Multiple (segs ! k) = (strs ! k = Wildcard p)"
       "wildcard_keys segs = map (\<lambda>k. ''$'' @ Itoa k) [n'..<n' + length (wildcard_keys segs)]"
       "\<forall>key eq. paramSegment key eq \<in> set segs \<longrightarrow> eq = equalCheck p"
    by auto
  have m: "Multiple seg = (strSeg = Wildcard p)"
    using compile_segment_kinds [OF seg] by auto
  have idx: "\<forall>k<length (strSeg # strs). Multiple ((seg # segs) ! k) = ((strSeg # strs) ! k = Wildcard p)"
    using m s(3) by (auto simp: nth_Cons split: nat.splits)
  have wk: "wildcard_keys (seg # segs)
      = map (\<lambda>k. ''$'' @ Itoa k) [n..<n + length (wildcard_keys (seg # segs))]"
  proof (cases "strSeg = Wildcard p")
    case True
    then have k: "seg = wildcardSegment (''$'' @ Itoa n)" "n' = Suc n"
      using compile_segment_kinds [OF seg] by auto
    have "wildcard_keys (seg # segs) = (''$'' @ Itoa n) # wildcard_keys segs"
      by (simp add: k)
    also have "\<dots> = (''$'' @ Itoa n) # map (\<lambda>k. ''$'' @ Itoa k) [Suc n..<Suc n + length (wildcard_keys segs)]"
      using s(4) k by simp
    also have "\<dots> = map (\<lambda>k. ''$'' @ Itoa k) [n..<n + Suc (length (wildcard_keys segs))]"
      by (rule map_upt_shift [symmetric])
    finally show ?thesis by (simp add: k del: upt_Suc)
  next
    case False
    then have "wildcard_keys (seg # segs) = wildcard_keys segs" "n' = n"
      using compile_segment_kinds [OF seg] by auto
    then show ?thesis using s(4) by simp
  qed
  have par: "\<forall>key eq. paramSegment key eq \<in> set (seg # segs) \<longrightarrow> eq = equalCheck p"
    using compile_segment_kinds [OF seg] s(5) by auto
  show ?case
    using f s(1,2) idx wk par by (intro conjI exI [of _ "seg # segs"]) simp_all
qed

lemma Compile_result:
  assumes "Compile pth opts = Returned (Inr p)"
  shows "match p = [] \<and> save p = \<lparr>i = 0, sIndex = 0, searchStart = 0, valid = False\<rparr>
     \<and> length (Segments p) = length (Split pth (Seperator p))
     \<and> (\<forall>k<length (Segments p). Multiple (Segments p ! k) = (Split pth (Seperator p) ! k = Wildcard p))
     \<and> wildcard_keys (Segments p) = map (\<lambda>k. ''$'' @ Itoa k) [0..<length (wildcard_keys (Segments p))]
     \<and> (\<forall>key eq. paramSegment key eq \<in> set (Segments p) \<longrightarrow> eq = equalCheck p)"
proof -
  from assms obtain p0 where
    p0: "apply_Options opts (new_Path pth) = Inr p0"
    and cs: "compile_segments p0 0 (Split pth (Seperator p0)) = Returned (Inr p)"
    by (auto simp: Compile_def split: sum.splits)
  from apply_Options_Segments [OF p0]
  have z: "Segments p0 = []" "match p0 = []" "save p0 = \<lparr>i = 0, sIndex = 0, searchStart = 0, valid = False\<rparr>"
    by (simp_all add: new_Path_def)
  from compile_segments_result [OF cs] z show ?thesis
    by auto
qed

text \<open>
  Claim C7. The segments of a compiled pattern stand in the order of the pattern's
  segments, a segment being a wildcard segment exactly where the pattern has the wildcard,
  and the keys of the wildcard segments are, in this order, \<open>$0\<close>, \<open>$1\<close>, and so on. The
  pattern \<open>/*\<close> compiles, and on \<open>/a\<close> it yields the capture map with the single entry
  \<open>$0\<close> for \<open>a\<close>, on \<open>/a/b/c\<close> the single entry \<open>$0\<close> for \<open>a/b/c\<close>.
\<close>

theorem C7_wildcard_keys:
  "(Compile pth opts = Returned (Inr p) \<longrightarrow>
      length (Segments p) = length (Split pth (Seperator p))
      \<and> (\<forall>k<length (Segments p). Multiple (Segments p ! k) = (Split pth (Seperator p) ! k = Wildcard p))
      \<and> wildcard_keys (Segments p) = map (\<lambda>k. ''$'' @ Itoa k) [0..<length (wildcard_keys (Segments p))])
   \<and> (\<exists>q. Compile ''/*'' [] = Returned (Inr q)
        \<and> map_option fst (FindSubmatch q ''/a'') = Some (Returned (Some [(''$0'', ''a'')]))
        \<and> map_option fst (FindSubmatch q ''/a/b/c'') = Some (Returned (Some [(''$0'', ''a/b/c'')])))"
proof (intro conjI impI)
  assume c: "Compile pth opts = Returned (Inr p)"
  from Compile_result [OF c]
  show "length (Segments p) = length (Split pth (Seperator p))"
    and "\<forall>k<length (Segments p). Multiple (Segments p ! k) = (Split pth (Seperator p) ! k = Wildcard p)"
    and "wildcard_keys (Segments p) = map (\<lambda>k. ''$'' @ Itoa k) [0..<length (wildcard_keys (Segments p))]"
    by blast+
next
  let ?q = "(new_Path ''/*'')\<lparr>Segments := [staticSegment [], wildcardSegment ''$0'']\<rparr>"
  have "Compile ''/*'' [] = Returned (Inr ?q)"
    by code_simp
  moreover have "map_option fst (FindSubmatch ?q ''/a'') = Some (Returned (Some [(''$0'', ''a'')]))"
    by code_simp
  moreover have "map_option fst (FindSubmatch ?q ''/a/b/c'') = Some (Returned (Some [(''$0'', ''a/b/c'')]))"
    by code_simp
  ultimately show "\<exists>q. Compile ''/*'' [] = Returned (Inr q)
        \<and> map_option fst (FindSubmatch q ''/a'') = Some (Returned (Some [(''$0'', ''a'')]))
        \<and> map_option fst (FindSubmatch q ''/a/b/c'') = Some (Returned (Some [(''$0'', ''a/b/c'')]))"
    by blast
qed

theorem C7_wildcard_keys_witness:
  "\<exists>q. Compile ''/*/:id/*'' [] = Returned (Inr q) \<and> wildcard_keys (Segments q) = [''$0'', ''$1'']"
proof -
  let ?q = "(new_Path ''/*/:id/*'')\<lparr>Segments :=
     [staticSegment [], wildcardSegment ''$0'', paramSegment ''id'' False, wildcardSegment ''$1'']\<rparr>"
  have c: "Compile ''/*/:id/*'' [] = Returned (Inr ?q)"
    by code_simp
  have n: "length (wildcard_keys (Segments ?q)) = 2"
    by simp
  from C7_wildcard_keys [of "''/*/:id/*''" "[]" ?q] c
  have "wildcard_keys (Segments ?q) = map (\<lambda>k. ''$'' @ Itoa k) [0..<length (wildcard_keys (Segments ?q))]"
    by blast
  also have "\<dots> = map (\<lambda>k. ''$'' @ Itoa k) [0..<2]"
    by (simp only: n)
  also have "\<dots> = [''$0'', ''$1'']"
    by code_simp
  finally show ?thesis using c by blast
qed

section \<open>Properties of matching\<close>

lemma set_no_draft [simp]: "set_draft no_draft key v = no_draft"
  by (simp add: set_draft_def no_draft_def)

lemma mixed_keys_no_draft:
  "mixed_keys keys static n s keyEnd no_draft
     = map_go_result (\<lambda>(ok, ke, d'). (ok, ke, no_draft)) (mixed_keys keys static n s keyEnd d)"
proof (induction keys arbitrary: n keyEnd d)
  case Nil
  then show ?case by simp
next
  case (Cons key keys)
  show ?case
    by (simp add: Cons.IH [symmetric] Let_def split: option.splits)
qed

lemma seg_Match_no_draft:
  assumes "\<forall>key. seg \<noteq> paramSegment key True"
  shows "seg_Match seg no_draft str = map_go_result (\<lambda>(ok, d'). (ok, no_draft)) (seg_Match seg d str)"
proof (cases seg)
  case (staticSegment x1)
  then show ?thesis by simp
next
  case (paramSegment key eq)
  with assms have "\<not> eq" by auto
  with paramSegment show ?thesis by (simp add: no_draft_def set_draft_def split: option.splits)
next
  case (wildcardSegment x3)
  then show ?thesis by simp
next
  case (mixedSegment keys static)
  show ?thesis
    unfolding mixedSegment seg_Match.simps mixed_keys_no_draft [of keys static 0 str 0 d]
    by (cases "mixed_keys keys static 0 str 0 d") (auto split: bool.splits)
qed

lemma getMatch_cond_erase: "getMatch_cond p (erase v) = getMatch_cond p v"
  by (simp add: getMatch_cond_def erase_def)

lemma match_rest_erase:
  assumes "\<forall>key. Segments p ! var_i v \<noteq> paramSegment key True"
  shows "erase (match_rest p s v d) = match_rest p s (erase v) no_draft"
proof (cases "slice_from s (var_sIndex v)")
  case None
  then show ?thesis by (simp add: match_rest_def erase_def)
next
  case (Some tail)
  show ?thesis
  proof (cases "seg_Match (Segments p ! var_i v) d tail")
    case Panicked
    then show ?thesis
      by (simp add: match_rest_def erase_def Some seg_Match_no_draft [OF assms, of tail d])
  next
    case (Returned r)
    then show ?thesis
      by (cases r) (simp add: match_rest_def erase_def Some seg_Match_no_draft [OF assms, of tail d])
  qed
qed

lemma match_segment_erase:
  assumes "\<forall>key. Segments p ! var_i v \<noteq> paramSegment key True"
  shows "erase (match_segment p v d str dn sv) = match_segment p (erase v) no_draft str dn sv"
proof (cases "seg_Match (Segments p ! var_i v) d str")
  case Panicked
  then show ?thesis
    by (simp add: match_segment_def erase_def seg_Match_no_draft [OF assms, of str d])
next
  case (Returned r)
  then show ?thesis
    by (cases r)
      (simp add: match_segment_def erase_def is_last_def seg_Match_no_draft [OF assms, of str d])
qed

lemma getMatch_body_erase:
  assumes flags: "\<forall>key. paramSegment key True \<notin> set (Segments p)"
    and c: "getMatch_cond p v"
  shows "erase (getMatch_body p s v) = getMatch_body p s (erase v)"
proof -
  from c obtain d where d: "draft v = Some d" and k: "var_i v < length (Segments p)"
    by (auto simp: getMatch_cond_def)
  from k flags have seg: "\<forall>key. Segments p ! var_i v \<noteq> paramSegment key True"
    by (metis nth_mem)
  have e: "draft (erase v) = Some no_draft" "var_i (erase v) = var_i v"
    "var_sIndex (erase v) = var_sIndex v" "var_searchStart (erase v) = var_searchStart v"
    "p_save (erase v) = p_save v" "is_last p (erase v) = is_last p v"
    "\<And>str dn. set_save p (erase v) str dn = set_save p v str dn"
    by (simp_all add: erase_def d is_last_def set_save_def)
  show ?thesis
  proof (cases "sliceSegment s (Seperator p) (var_sIndex v) (var_searchStart v)")
    case Panicked
    then show ?thesis by (simp add: getMatch_body_def e d) (simp add: erase_def d)
  next
    case (Returned sd)
    obtain str dn where sd: "sd = (str, dn)" by (cases sd)
    show ?thesis
      unfolding getMatch_body_def e d Returned sd
      by (simp add: match_rest_erase [OF seg] match_segment_erase [OF seg]) (simp add: erase_def d)
  qed
qed

lemma getMatch_loop_erase:
  assumes "\<forall>key. paramSegment key True \<notin> set (Segments p)" and "match p = []"
  shows "map_option erase (getMatch_loop p s True) = getMatch_loop p s False"
proof -
  have "map_option erase (while_option (getMatch_cond p) (getMatch_body p s) (getMatch_init p True))
      = while_option (getMatch_cond p) (getMatch_body p s) (erase (getMatch_init p True))"
    by (rule while_option_commute) (simp_all add: getMatch_cond_erase getMatch_body_erase [OF assms(1)])
  moreover have "erase (getMatch_init p True) = getMatch_init p False"
    by (simp add: erase_def getMatch_init_def newMatchDraft_def no_draft_def assms(2))
  ultimately show ?thesis by (simp add: getMatch_loop_def)
qed

lemma getMatch_return_erase: "is_match (getMatch_return s (erase v)) = is_match (getMatch_return s v)"
  by (simp add: getMatch_return_def is_match_def erase_def split: loop_exit.splits option.splits)

lemma Match_FindSubmatch:
  assumes "\<forall>key eq. paramSegment key eq \<in> set (Segments p) \<longrightarrow> eq = equalCheck p" and "match p = []"
  shows "Match p s = map_option (\<lambda>(m, p'). (is_match m, p')) (FindSubmatch p s)"
proof (cases "equalCheck p")
  case True
  then show ?thesis by (simp add: Match_def FindSubmatch_def)
next
  case False
  with assms(1) have flags: "\<forall>key. paramSegment key True \<notin> set (Segments p)"
    by auto
  have "Match p s = map_option ((\<lambda>(m, p'). (is_match m, p')) \<circ> (\<lambda>v. (getMatch_return s v, p\<lparr>save := p_save v\<rparr>)))
      (getMatch_loop p s False)"
    using False by (simp add: Match_def getMatch_def option.map_comp)
  also have "\<dots> = map_option (((\<lambda>(m, p'). (is_match m, p')) \<circ> (\<lambda>v. (getMatch_return s v, p\<lparr>save := p_save v\<rparr>))) \<circ> erase)
      (getMatch_loop p s True)"
    by (simp add: getMatch_loop_erase [OF flags assms(2), symmetric] option.map_comp)
  also have "((\<lambda>(m, p'). (is_match m, p')) \<circ> (\<lambda>v. (getMatch_return s v, p\<lparr>save := p_save v\<rparr>))) \<circ> erase
      = (\<lambda>(m, p'). (is_match m, p')) \<circ> (\<lambda>v. (getMatch_return s v, p\<lparr>save := p_save v\<rparr>))"
    by (rule ext) (simp add: getMatch_return_erase, simp add: erase_def)
  finally show ?thesis
    by (simp add: FindSubmatch_def getMatch_def option.map_comp comp_def)
qed

text \<open>
  Claim C9. For a path that \<open>Compile\<close> has returned, whatever its save point has become
  since, and every input: \<open>Match\<close> diverges, panics or returns exactly as \<open>FindSubmatch\<close>
  does from the same state of the path, it returns true if and only if \<open>FindSubmatch\<close>
  returns a capture map that is not nil, and both leave the path in the same state.
\<close>

theorem C9_Match_iff_FindSubmatch:
  assumes "Compile pth opts = Returned (Inr p)"
  shows "Match (p\<lparr>save := sv\<rparr>) s
     = map_option (\<lambda>(m, p'). (is_match m, p')) (FindSubmatch (p\<lparr>save := sv\<rparr>) s)"
  using Compile_result [OF assms] by (intro Match_FindSubmatch) simp_all


theorem C9_Match_iff_FindSubmatch_witness:
  "\<exists>q. Compile ''/a/*/b'' [] = Returned (Inr q)
     \<and> FindSubmatch (q\<lparr>save := \<lparr>i = 2, sIndex = 3, searchStart = 2, valid = True\<rparr>\<rparr>) ''/a/x/y/b''
         = Some (Returned (Some [(''$0'', ''x/y'')]),
                 q\<lparr>save := \<lparr>i = 2, sIndex = 3, searchStart = 4, valid = True\<rparr>\<rparr>)
     \<and> Match (q\<lparr>save := \<lparr>i = 2, sIndex = 3, searchStart = 2, valid = True\<rparr>\<rparr>) ''/a/x/y/b''
         = Some (Returned True, q\<lparr>save := \<lparr>i = 2, sIndex = 3, searchStart = 4, valid = True\<rparr>\<rparr>)"
proof -
  let ?q = "(new_Path ''/a/*/b'')\<lparr>Segments :=
     [staticSegment [], staticSegment ''a'', wildcardSegment ''$0'', staticSegment ''b'']\<rparr>"
  let ?sv = "\<lparr>i = 2, sIndex = 3, searchStart = 2, valid = True\<rparr>"
  have c: "Compile ''/a/*/b'' [] = Returned (Inr ?q)"
    by code_simp
  have f: "FindSubmatch (?q\<lparr>save := ?sv\<rparr>) ''/a/x/y/b''
      = Some (Returned (Some [(''$0'', ''x/y'')]),
              ?q\<lparr>save := \<lparr>i = 2, sIndex = 3, searchStart = 4, valid = True\<rparr>\<rparr>)"
    by code_simp
  have "Match (?q\<lparr>save := ?sv\<rparr>) ''/a/x/y/b''
      = Some (Returned True, ?q\<lparr>save := \<lparr>i = 2, sIndex = 3, searchStart = 4, valid = True\<rparr>\<rparr>)"
    unfolding C9_Match_iff_FindSubmatch [OF c, of ?sv "''/a/x/y/b''"] f
    by (simp add: is_match_def)
  with c f show ?thesis by blast
qed

text \<open>
  Claim C6 against the code. \<open>getMatch\<close> never resets the save point \<^verbatim>\<open>p.save\<close>, so a save
  point set by one call is still valid in the next. The pattern \<open>/a/*/b\<close> has four
  segments and the input \<open>zzzzz/b\<close> has two pieces, so the input is exhausted before the
  last segment, and the freshly compiled path rejects it. After a call on \<open>/a/x/b\<close> the
  same path accepts it: the first segment fails, the loop resumes at the wildcard with
  \<^verbatim>\<open>sIndex = 3\<close> from the earlier input, and the first three bytes are consumed by no
  segment. On the input \<open>x/\<close> the reused path panics instead of returning false.
\<close>

theorem C6_stale_save_point:
  "\<exists>q q' q''. Compile ''/a/*/b'' [] = Returned (Inr q)
     \<and> length (Segments q) = 4 \<and> Split ''zzzzz/b'' (Seperator q) = [''zzzzz'', ''b'']
     \<and> Match q ''zzzzz/b'' = Some (Returned False, q)
     \<and> FindSubmatch q ''zzzzz/b'' = Some (Returned None, q)
     \<and> Match q ''/a/x/b'' = Some (Returned True, q')
     \<and> save q' = \<lparr>i = 2, sIndex = 3, searchStart = 2, valid = True\<rparr>
     \<and> Match q' ''zzzzz/b'' = Some (Returned True, q'')
     \<and> FindSubmatch q' ''zzzzz/b'' = Some (Returned (Some [(''$0'', ''zz'')]), q'')
     \<and> map_option fst (Match q' ''x/'') = Some Panicked"
proof -
  let ?q = "(new_Path ''/a/*/b'')\<lparr>Segments :=
     [staticSegment [], staticSegment ''a'', wildcardSegment ''$0'', staticSegment ''b'']\<rparr>"
  let ?q' = "?q\<lparr>save := \<lparr>i = 2, sIndex = 3, searchStart = 2, valid = True\<rparr>\<rparr>"
  let ?q'' = "?q\<lparr>save := \<lparr>i = 2, sIndex = 3, searchStart = 3, valid = True\<rparr>\<rparr>"
  have c: "Compile ''/a/*/b'' [] = Returned (Inr ?q)"
    by code_simp
  have l: "length (Segments ?q) = 4" "Split ''zzzzz/b'' (Seperator ?q) = [''zzzzz'', ''b'']"
    by code_simp+
  have m0: "Match ?q ''zzzzz/b'' = Some (Returned False, ?q)"
    "FindSubmatch ?q ''zzzzz/b'' = Some (Returned None, ?q)"
    by code_simp+
  have m1: "Match ?q ''/a/x/b'' = Some (Returned True, ?q')"
    by code_simp
  have s: "save ?q' = \<lparr>i = 2, sIndex = 3, searchStart = 2, valid = True\<rparr>"
    by simp
  have m2: "Match ?q' ''zzzzz/b'' = Some (Returned True, ?q'')"
    "FindSubmatch ?q' ''zzzzz/b'' = Some (Returned (Some [(''$0'', ''zz'')]), ?q'')"
    by code_simp+
  have m3: "map_option fst (Match ?q' ''x/'') = Some Panicked"
    by code_simp
  from c l m0 m1 s m2 m3 show ?thesis by blast
qed

theorem C6_stale_save_point_witness:
  "\<exists>q q'. Compile ''/a/*/b'' [] = Returned (Inr q)
     \<and> Match q ''/a/x/b'' = Some (Returned True, q')
     \<and> map_option fst (Match q ''zzzzz/b'') = Some (Returned False)
     \<and> map_option fst (Match q' ''zzzzz/b'') = Some (Returned True)"
proof -
  from C6_stale_save_point obtain q q' q'' where
    "Compile ''/a/*/b'' [] = Returned (Inr q)" "Match q ''zzzzz/b'' = Some (Returned False, q)"
    "Match q ''/a/x/b'' = Some (Returned True, q')" "Match q' ''zzzzz/b'' = Some (Returned True, q'')"
    by blast
  then show ?thesis by (intro exI [of _ q] exI [of _ q']) simp
qed

end
